theory Spec2Isabelle
  imports Complex_Main "HOL-Library.Word" "HOL-Library.Multiset"
begin

unbundle bit_operations_syntax

section \<open>Errors\<close>

text \<open>
  The exceptions thrown by the decoder (\<open>read_error\<close>, \<open>bad_header\<close>,
  \<open>unexpected_eof\<close>), the failure of the unit-system constructor, the
  \<open>std::length_error\<close> of a vector built with a negative size, and one more
  outcome for the places where the C++ has no defined behaviour (a float to int
  conversion out of range, a signed overflow, a vector indexed out of bounds).
\<close>

datatype error =
    ReadError
  | BadHeader
  | UnexpectedEof
  | UnrecognizedUnitSystem
  | LengthError
  | Undefined

section \<open>Input streams\<close>

text \<open>
  A \<open>std::istream\<close> over a finite sequence of chars: the get position, the
  \<open>failbit\<close> and \<open>eofbit\<close> of its state (nothing in the decoder sets
  \<open>badbit\<close>), and the kind of buffer behind it. A file buffer lets the position
  be moved beyond the end of the file (the next read is short); a string buffer refuses
  such a seek.
\<close>

datatype streambuf = FileBuf | StringBuf

record istream =
  content :: string
  gpos :: nat
  failbit :: bool
  eofbit :: bool
  buf_kind :: streambuf

definition open_stream :: "streambuf \<Rightarrow> string \<Rightarrow> istream" where
  "open_stream k cs = \<lparr>content = cs, gpos = 0, failbit = False, eofbit = False, buf_kind = k\<rparr>"

definition good :: "istream \<Rightarrow> bool" where
  "good s \<longleftrightarrow> \<not> failbit s \<and> \<not> eofbit s"

text \<open>
  \<open>stream.read(buf, n)\<close>: \<open>buf\<close> is what the destination held before the call,
  the result what it holds after. A stream that is not good reads nothing and gets
  \<open>failbit\<close>; a short read stores what there is and sets \<open>failbit\<close> and
  \<open>eofbit\<close>.
\<close>

definition stream_read :: "string \<Rightarrow> nat \<Rightarrow> istream \<Rightarrow> string \<times> istream" where
  "stream_read buf n s =
     (if \<not> good s then (buf, s\<lparr>failbit := True\<rparr>)
      else
        let got = take n (drop (gpos s) (content s)) in
        if length got = n then (got @ drop n buf, s\<lparr>gpos := gpos s + n\<rparr>)
        else (got @ drop (length got) buf,
              s\<lparr>gpos := gpos s + length got, failbit := True, eofbit := True\<rparr>))"

text \<open>
  \<open>stream.seekg\<close> to an absolute position: \<open>eofbit\<close> is cleared first, a
  stream with \<open>failbit\<close> is left where it is, and a seek that the buffer refuses
  sets \<open>failbit\<close>.
\<close>

definition seekg_to :: "nat \<Rightarrow> istream \<Rightarrow> istream" where
  "seekg_to p s =
     (let s1 = s\<lparr>eofbit := False\<rparr> in
      if failbit s1 then s1
      else if buf_kind s1 = StringBuf \<and> length (content s1) < p then s1\<lparr>failbit := True\<rparr>
      else s1\<lparr>gpos := p\<rparr>)"

definition seekg_beg :: "nat \<Rightarrow> istream \<Rightarrow> istream" where
  "seekg_beg off s = seekg_to off s"

definition seekg_cur :: "nat \<Rightarrow> istream \<Rightarrow> istream" where
  "seekg_cur off s = seekg_to (gpos s + off) s"

text \<open>
  \<open>read_str<N>\<close> reads into a local array that it does not initialise: after a
  short read the rest of the array is whatever the memory held, here \<open>junk\<close>.
\<close>

definition uninit :: "(nat \<Rightarrow> char) \<Rightarrow> nat \<Rightarrow> string" where
  "uninit junk n = map junk [0..<n]"

definition read_str :: "(nat \<Rightarrow> char) \<Rightarrow> nat \<Rightarrow> istream \<Rightarrow> string \<times> istream" where
  "read_str junk n s = stream_read (uninit junk n) n s"

section \<open>Words\<close>

text \<open>
  Four chars in memory read as an \<open>int32_t\<close> on a little-endian host, and
  \<open>ntohl\<close> there, which reverses the four bytes. \<open>be_word\<close> is the big-endian
  value of the chars, for comparison.
\<close>

fun le_word :: "string \<Rightarrow> 32 word" where
  "le_word [] = 0"
| "le_word (c # cs) = of_char c OR push_bit 8 (le_word cs)"

fun be_acc :: "32 word \<Rightarrow> string \<Rightarrow> 32 word" where
  "be_acc w [] = w"
| "be_acc w (c # cs) = be_acc (push_bit 8 w OR of_char c) cs"

definition be_word :: "string \<Rightarrow> 32 word" where
  "be_word cs = be_acc 0 cs"

definition ntoh :: "32 word \<Rightarrow> 32 word" where
  "ntoh ui =
     push_bit 24 (take_bit 8 ui) OR push_bit 16 (take_bit 8 (drop_bit 8 ui))
       OR push_bit 8 (take_bit 8 (drop_bit 16 ui)) OR drop_bit 24 ui"

text \<open>The \<open>k\<close>-th \<open>int32_t\<close> of a char buffer, after \<open>ntoh\<close>.\<close>

definition int32_at :: "string \<Rightarrow> nat \<Rightarrow> 32 word" where
  "int32_at buf k = ntoh (le_word (take 4 (drop (4 * k) buf)))"

definition zeros :: "nat \<Rightarrow> string" where
  "zeros n = replicate n (CHR 0x00)"

text \<open>
  \<open>interpret_float\<close> copies the bits of an \<open>int32_t\<close> into a \<open>float\<close>: a float
  is kept as its bit pattern. \<open>float_to_int32\<close> is the cast \<open>(int32_t) f\<close>,
  which drops the fraction; it has no defined result for a NaN, an infinity or a value
  outside the range of \<open>int32_t\<close>.
\<close>

type_synonym float = "32 word"

definition interpret_float :: "32 word \<Rightarrow> float" where
  "interpret_float i = i"

definition float_sign :: "float \<Rightarrow> bool" where
  "float_sign f = bit f 31"

definition float_exponent :: "float \<Rightarrow> nat" where
  "float_exponent f = unat (take_bit 8 (drop_bit 23 f))"

definition float_fraction :: "float \<Rightarrow> nat" where
  "float_fraction f = unat (take_bit 23 f)"

definition float_to_int32 :: "float \<Rightarrow> int option" where
  "float_to_int32 f =
     (let e = float_exponent f; m = 2 ^ 23 + float_fraction f in
      if e < 127 then Some 0
      else if e < 150 then Some ((if float_sign f then -1 else 1) * int (m div 2 ^ (150 - e)))
      else if e < 158 then Some ((if float_sign f then -1 else 1) * int (m * 2 ^ (e - 150)))
      else if float_sign f \<and> e = 158 \<and> float_fraction f = 0 then Some (- (2 ^ 31))
      else None)"

text \<open>
  The number a float stands for, when it is finite (exponent field below 255): the
  reading of the bits that \<open>float_to_int32\<close> and \<open>float_key\<close> are measured
  against.
\<close>

definition float_val :: "float \<Rightarrow> real" where
  "float_val f =
     (if float_sign f then -1 else 1) *
     (if float_exponent f = 0 then real (float_fraction f) / 2 ^ 149
      else if float_exponent f < 150
        then real (2 ^ 23 + float_fraction f) / 2 ^ (150 - float_exponent f)
      else real (2 ^ 23 + float_fraction f) * 2 ^ (float_exponent f - 150))"

section \<open>Header decoder\<close>

text \<open>
  Modelled from the spec: the declaration of \<open>NexusHeader\<close> is not among the sources.
  The fields are those of the aggregate that \<open>read_header\<close> builds, the unit system
  and the eight integers in stream order, under the names the decoder and the converter
  use for them.
\<close>

record 'u NexusHeader =
  unit_system :: 'u
  num_classes :: int
  day :: int
  month :: int
  year :: int
  nx :: int
  ny :: int
  nz :: int
  ncomp :: int

definition type_tag :: string where
  "type_tag = ''PLOT  BIN   ''"

text \<open>
  The constructor of \<open>UnitSystem\<close> is not among the sources: it is the parameter
  \<open>unit_ctor\<close>, from the six chars of the tag to a unit system or an error.
\<close>

definition read_header ::
  "(string \<Rightarrow> error + 'u) \<Rightarrow> (nat \<Rightarrow> char) \<Rightarrow> istream \<Rightarrow> error + ('u NexusHeader \<times> istream)" where
  "read_header unit_ctor junk stream =
     (let s = seekg_beg 4 stream;
          (th1, s) = read_str junk 12 s;
          ok = (th1 = type_tag)
      in
      if \<not> ok \<or> \<not> good s then Inl BadHeader
      else
        let s = seekg_cur 6 s;
            s = seekg_cur 6 s;
            s = seekg_cur 6 s;
            s = seekg_cur 6 s;
            (us, s) = read_str junk 6 s
        in
        if \<not> good s then Inl UnexpectedEof
        else
          case unit_ctor us of
            Inl e \<Rightarrow> Inl e
          | Inr u \<Rightarrow>
              let s = seekg_cur (530 + 264) s;
                  (raw, s) = stream_read (zeros 32) 32 s
              in
              if \<not> good s then Inl UnexpectedEof
              else
                let buf = map (int32_at raw) [0..<8] in
                if list_ex (\<lambda>x. sint x < 0) buf then Inl BadHeader
                else
                  Inr (\<lparr>unit_system = u,
                        num_classes = sint (buf ! 0), day = sint (buf ! 1),
                        month = sint (buf ! 2), year = sint (buf ! 3),
                        nx = sint (buf ! 4), ny = sint (buf ! 5),
                        nz = sint (buf ! 6), ncomp = sint (buf ! 7)\<rparr>, s))"


section \<open>Variable catalog decoder\<close>

text \<open>
  The catalog is a \<open>std::map\<close> from class names to the variable codes of the class.
  \<open>map_index\<close> is its \<open>operator[]\<close>, which inserts an empty vector under a
  key that is not there.
\<close>

type_synonym catalog = "string \<rightharpoonup> string list"

definition map_index :: "catalog \<Rightarrow> string \<Rightarrow> catalog \<times> string list" where
  "map_index m k = (case m k of None \<Rightarrow> (m(k \<mapsto> []), []) | Some v \<Rightarrow> (m, v))"

text \<open>The first loop: one read of 8 chars per class into the same array.\<close>

primrec read_classnames :: "nat \<Rightarrow> string \<Rightarrow> istream \<Rightarrow> string list \<times> istream" where
  "read_classnames 0 classname s = ([], s)"
| "read_classnames (Suc n) classname s =
     (let (classname, s) = stream_read classname 8 s;
          (rest, s) = read_classnames n classname s
      in (classname # rest, s))"

text \<open>The \<open>memcpy\<close> loop that cuts one bulk read into tokens of 4 chars.\<close>

definition split_varnames :: "string \<Rightarrow> nat \<Rightarrow> string list" where
  "split_varnames buf n = map (\<lambda>k. take 4 (drop (k * 4) buf)) [0..<n]"

text \<open>
  The second loop, over the classes and their counts. \<open>vars_in_class[i] * 4\<close> is an
  \<open>int\<close> product: it overflows from \<open>2 ^ 29\<close> on.
\<close>

fun read_class_vars ::
  "(string \<times> 32 word) list \<Rightarrow> catalog \<Rightarrow> istream \<Rightarrow> error + (catalog \<times> istream)" where
  "read_class_vars [] varnames s = Inr (varnames, s)"
| "read_class_vars ((cn, cnt) # rest) varnames s =
     (let varnames = varnames(cn \<mapsto> []);
          s = seekg_cur 4 s;
          n = nat (sint cnt)
      in
      if 2 ^ 29 \<le> n then Inl Undefined
      else
        let (buf, s) = stream_read (zeros (n * 4)) (n * 4) s;
            varnames = varnames(cn \<mapsto> split_varnames buf n);
            s = seekg_cur 8 s
        in read_class_vars rest varnames s)"

definition read_varnames ::
  "(nat \<Rightarrow> char) \<Rightarrow> istream \<Rightarrow> int \<Rightarrow> error + (catalog \<times> istream)" where
  "read_varnames junk stream num_classes' =
     (if num_classes' < 0 then Inl LengthError
      else
        let n = nat num_classes';
            s = seekg_cur 8 stream;
            (classnames, s) = read_classnames n (uninit junk 8) s;
            s = seekg_cur 8 s
        in
        if 2 ^ 29 \<le> n then Inl Undefined
        else
          let (raw, s) = stream_read (zeros (n * 4)) (n * 4) s;
              vars_in_class = map (int32_at raw) [0..<n]
          in
          if list_ex (\<lambda>x. sint x < 0) vars_in_class then Inl BadHeader
          else
            let s = seekg_cur 8 s in
            case read_class_vars (zip classnames vars_in_class) Map.empty s of
              Inl e \<Rightarrow> Inl e
            | Inr (varnames, s) \<Rightarrow>
                if eofbit s \<or> \<not> good s then Inl UnexpectedEof else Inr (varnames, s))"

section \<open>Record stream decoder\<close>

text \<open>
  Modelled from the spec: the declaration of \<open>NexusData\<close> is not among the
  sources. The fields of a sample are those of the aggregate that \<open>read_vars\<close>
  builds, in its order. An integer field holds the value of its \<open>int32_t\<close>, a
  float field the bits of its \<open>float\<close>.
\<close>

record NexusData =
  timestep :: int
  time :: float
  max_perfs :: int
  classname :: string
  instancename :: string
  varname :: string
  value' :: float

definition read_vars ::
  "istream \<Rightarrow> NexusData list \<Rightarrow> int \<Rightarrow> float \<Rightarrow> int \<Rightarrow> string \<Rightarrow> string \<Rightarrow> string list
     \<Rightarrow> NexusData list \<times> istream" where
  "read_vars stream data timestep' time' max_perfs' classname' instancename' varnames =
     (let n = length varnames;
          (raw, s) = stream_read (zeros (n * 4)) (n * 4) stream;
          values = map (int32_at raw) [0..<n]
      in (data @ map (\<lambda>k. \<lparr>timestep = timestep', time = time', max_perfs = max_perfs',
                             classname = classname', instancename = instancename',
                             varname = varnames ! k,
                             value' = interpret_float (values ! k)\<rparr>) [0..<n],
          s))"

text \<open>The loop over the items of a block; the instance name array is not initialised.\<close>

primrec read_items ::
  "nat \<Rightarrow> (nat \<Rightarrow> char) \<Rightarrow> catalog \<Rightarrow> istream \<Rightarrow> NexusData list \<Rightarrow> int \<Rightarrow> float \<Rightarrow> int \<Rightarrow> string
     \<Rightarrow> catalog \<times> istream \<times> NexusData list" where
  "read_items 0 junk varnames s data timestep' time' max_perfs' classname' = (varnames, s, data)"
| "read_items (Suc n) junk varnames s data timestep' time' max_perfs' classname' =
     (let s = seekg_cur 8 s;
          (instancename', s) = stream_read (uninit junk 8) 8 s;
          s = seekg_cur 64 s;
          (varnames, vs) = map_index varnames classname';
          (data, s) = read_vars s data timestep' time' max_perfs' classname' instancename' vs
      in read_items n junk varnames s data timestep' time' max_perfs' classname')"

definition stop_tag :: string where
  "stop_tag = ''STOP    ''"

text \<open>
  One turn of the \<open>while (true)\<close> loop of \<open>load\<close>: the sentinel ends the decode,
  anything else is a block.
\<close>

datatype step = Done istream | More catalog istream "NexusData list"

definition read_block ::
  "(nat \<Rightarrow> char) \<Rightarrow> catalog \<Rightarrow> istream \<Rightarrow> NexusData list \<Rightarrow> error + step" where
  "read_block junk varnames stream data =
     (let (classname', s) = read_str junk 8 stream in
      if classname' = stop_tag then Inr (Done s)
      else
        let s = seekg_cur 8 s;
            (raw, s) = stream_read (zeros 20) 20 s
        in
        if \<not> good s then Inl UnexpectedEof
        else
          let buf = map (int32_at raw) [0..<5] in
          case (float_to_int32 (interpret_float (buf ! 0)),
                float_to_int32 (interpret_float (buf ! 2)),
                float_to_int32 (interpret_float (buf ! 4))) of
            (Some timestep', Some num_items, Some max_perfs') \<Rightarrow>
              let time' = interpret_float (buf ! 1);
                  (varnames, s, data) =
                    read_items (nat num_items) junk varnames s data timestep' time' max_perfs' classname';
                  s = seekg_cur 8 s
              in Inr (More varnames s data)
          | _ \<Rightarrow> Inl Undefined)"

function load_loop ::
  "(nat \<Rightarrow> char) \<Rightarrow> catalog \<Rightarrow> istream \<Rightarrow> NexusData list \<Rightarrow> error + (NexusData list \<times> istream)" where
  "load_loop junk varnames s data =
     (case read_block junk varnames s data of
        Inl e \<Rightarrow> Inl e
      | Inr (Done s') \<Rightarrow> Inr (data, s')
      | Inr (More varnames' s' data') \<Rightarrow> load_loop junk varnames' s' data')"
  by pat_completeness auto


text \<open>
  Modelled from the spec: the declaration of \<open>NexusPlot\<close> is not among the sources;
  a plot is the header and the samples in file order.
\<close>

record 'u NexusPlot =
  header :: "'u NexusHeader"
  data :: "NexusData list"

text \<open>
  \<open>nex::load\<close> on a stream. The guard that restores the exception mask has no
  effect on the result: with the mask cleared no stream operation throws.
\<close>

definition load ::
  "(string \<Rightarrow> error + 'u) \<Rightarrow> (nat \<Rightarrow> char) \<Rightarrow> istream \<Rightarrow> error + 'u NexusPlot" where
  "load unit_ctor junk stream =
     (case read_header unit_ctor junk stream of
        Inl e \<Rightarrow> Inl e
      | Inr (h, s) \<Rightarrow>
          (case read_varnames junk s (num_classes h) of
             Inl e \<Rightarrow> Inl e
           | Inr (varnames, s) \<Rightarrow>
               (case load_loop junk varnames s [] of
                  Inl e \<Rightarrow> Inl e
                | Inr (d, s) \<Rightarrow> Inr \<lparr>header = h, data = d\<rparr>)))"

text \<open>\<open>nex::load\<close> on a file name, over a file system from names to contents.\<close>

definition load_file ::
  "(string \<Rightarrow> error + 'u) \<Rightarrow> (nat \<Rightarrow> char) \<Rightarrow> (string \<rightharpoonup> string) \<Rightarrow> string
     \<Rightarrow> error + 'u NexusPlot" where
  "load_file unit_ctor junk files filename =
     (case files filename of
        None \<Rightarrow> Inl ReadError
      | Some cs \<Rightarrow> load unit_ctor junk (open_stream FileBuf cs))"

section \<open>Helpers of the converter\<close>

text \<open>
  Modelled from the spec: the predicates, getters and comparisons of
  \<open>nexus/util.hpp\<close> (\<open>is::classname\<close>, \<open>is::instancename\<close>, \<open>is::varname\<close>,
  \<open>cmp::timestep\<close>, \<open>get::timestep\<close>, \<open>get::time\<close>, \<open>unique\<close>,
  \<open>varnames\<close>) are not among the sources. A fixed-width token is compared with a
  name after its padding of blanks is trimmed; \<open>unique\<close> gives the values of a getter
  over all samples of the plot, in ascending order, each once; \<open>varnames\<close> gives the
  trimmed variable codes carried by the samples of a class, each once.
\<close>

definition trim :: "string \<Rightarrow> string" where
  "trim cs = rev (dropWhile (\<lambda>c. c = CHR '' '') (rev cs))"

definition is_classname :: "string \<Rightarrow> NexusData \<Rightarrow> bool" where
  "is_classname name nd \<longleftrightarrow> trim (classname nd) = name"

definition is_instancename :: "string \<Rightarrow> NexusData \<Rightarrow> bool" where
  "is_instancename name nd \<longleftrightarrow> trim (instancename nd) = name"

definition is_varname :: "string \<Rightarrow> NexusData \<Rightarrow> bool" where
  "is_varname name nd \<longleftrightarrow> trim (varname nd) = name"

definition cmp_timestep :: "NexusData \<Rightarrow> NexusData \<Rightarrow> bool" where
  "cmp_timestep a b \<longleftrightarrow> timestep a < timestep b"

definition get_timestep :: "NexusData \<Rightarrow> int" where
  "get_timestep nd = timestep nd"

definition get_time :: "NexusData \<Rightarrow> float" where
  "get_time nd = time nd"

text \<open>
  The order of two floats that are not NaN, read off their bits: \<open>float_key\<close> is
  monotone in the value of the float, and the two zeros have the same key.
\<close>

definition float_key :: "float \<Rightarrow> int" where
  "float_key f =
     (if float_sign f then - int (unat (take_bit 31 f)) else int (unat (take_bit 31 f)))"

fun dedup_key :: "('a \<Rightarrow> int) \<Rightarrow> 'a list \<Rightarrow> 'a list" where
  "dedup_key key [] = []"
| "dedup_key key [x] = [x]"
| "dedup_key key (x # y # ys) =
     (if key x = key y then dedup_key key (x # ys) else x # dedup_key key (y # ys))"

definition unique :: "'u NexusPlot \<Rightarrow> (NexusData \<Rightarrow> 'a) \<Rightarrow> ('a \<Rightarrow> int) \<Rightarrow> 'a list" where
  "unique plt f key = dedup_key key (sort_key key (map f (data plt)))"

definition varnames :: "'u NexusPlot \<Rightarrow> string \<Rightarrow> string list" where
  "varnames plt cls = remdups (map (\<lambda>nd. trim (varname nd)) (filter (is_classname cls) (data plt)))"

text \<open>
  \<open>std::sort\<close> promises a permutation in which no element is before one that
  compares less than it, and nothing about the order of elements that compare equal.
  The converter takes the sort as a parameter \<open>srt\<close> that keeps this promise.
\<close>

definition std_sort_spec :: "('a \<Rightarrow> 'a \<Rightarrow> bool) \<Rightarrow> ('a list \<Rightarrow> 'a list) \<Rightarrow> bool" where
  "std_sort_spec cmp srt \<longleftrightarrow>
     (\<forall>xs. mset (srt xs) = mset xs \<and> sorted_wrt (\<lambda>a b. \<not> cmp b a) (srt xs))"

section \<open>The summary writer\<close>

text \<open>
  The \<open>ecl_sum\<close> library is outside the repository part under study. Of a summary
  the model keeps what the converter hands over: the arguments of
  \<open>ecl_sum_alloc_writer\<close>, the variables added (keyword and unit; a node is the
  position of its variable), and the timestep records (report step, simulation time
  and the values set, by node).
\<close>

record ecl_sum_tstep =
  report_step :: nat
  sim_seconds :: float
  node_values :: "nat \<rightharpoonup> float"

record ecl_sum =
  ecl_case :: string
  fmt_output :: bool
  unified :: bool
  key_join_string :: string
  sim_start :: "int \<times> int \<times> int"
  time_in_days :: bool
  dims :: "int \<times> int \<times> int"
  smspec_vars :: "(string \<times> string) list"
  tsteps :: "ecl_sum_tstep list"

definition ecl_sum_alloc_writer ::
  "string \<Rightarrow> bool \<Rightarrow> bool \<Rightarrow> string \<Rightarrow> int \<times> int \<times> int \<Rightarrow> bool \<Rightarrow> int \<Rightarrow> int \<Rightarrow> int \<Rightarrow> ecl_sum" where
  "ecl_sum_alloc_writer c fmt uni join start in_days x y z =
     \<lparr>ecl_case = c, fmt_output = fmt, unified = uni, key_join_string = join,
      sim_start = start, time_in_days = in_days, dims = (x, y, z),
      smspec_vars = [], tsteps = []\<rparr>"

definition ecl_sum_add_var :: "ecl_sum \<Rightarrow> string \<Rightarrow> string \<Rightarrow> nat \<times> ecl_sum" where
  "ecl_sum_add_var e kw unit =
     (length (smspec_vars e), e\<lparr>smspec_vars := smspec_vars e @ [(kw, unit)]\<rparr>)"

definition ecl_sum_add_tstep :: "ecl_sum \<Rightarrow> nat \<Rightarrow> float \<Rightarrow> nat \<times> ecl_sum" where
  "ecl_sum_add_tstep e step secs =
     (length (tsteps e),
      e\<lparr>tsteps := tsteps e @ [\<lparr>report_step = step, sim_seconds = secs, node_values = Map.empty\<rparr>]\<rparr>)"

definition ecl_sum_tstep_set_from_node :: "ecl_sum \<Rightarrow> nat \<Rightarrow> nat \<Rightarrow> float \<Rightarrow> ecl_sum" where
  "ecl_sum_tstep_set_from_node e ts n v =
     e\<lparr>tsteps := (tsteps e)[ts := (tsteps e ! ts)\<lparr>node_values := (node_values (tsteps e ! ts))(n \<mapsto> v)\<rparr>]\<rparr>"

section \<open>Summary converter\<close>

record eclvar =
  node :: nat
  val :: float
  timestep_index :: nat

definition kw_nex2ecl :: "string \<rightharpoonup> string" where
  "kw_nex2ecl = map_of
     [(''QOP'', ''FOPR''), (''QWP'', ''FWPR''), (''QGP'', ''FGPR''),
      (''GOR'', ''FGOR''), (''WCUT'', ''FWCT''), (''COP'', ''FOPT''),
      (''CWP'', ''FWPT''), (''CGP'', ''FGPT''), (''QWI'', ''FWIR''),
      (''QGI'', ''FGIR''), (''CWI'', ''FWIT''), (''CGI'', ''FGIT''),
      (''QPP'', ''FCPR''), (''CPP'', ''FCPC'')]"

definition warning :: "string \<Rightarrow> string" where
  "warning var = ''Warning: could not convert nexus variable '' @ var @ '' to ecl keyword.''"

text \<open>
  The loop of \<open>field_smspec\<close> over the variable codes of the class: the nodes, the
  summary and what went to \<open>std::cerr\<close> are passed along. \<open>unit_str\<close> is the
  lookup of a unit by variable code in the unit system of the plot, which is not among
  the sources.
\<close>

fun field_vars ::
  "string list \<Rightarrow> (string \<Rightarrow> string) \<Rightarrow> NexusData list \<Rightarrow> eclvar list \<Rightarrow> ecl_sum \<Rightarrow> string list
     \<Rightarrow> eclvar list \<times> ecl_sum \<times> string list" where
  "field_vars [] unit_str field nodes e cerr = (nodes, e, cerr)"
| "field_vars (var # vars) unit_str field nodes e cerr =
     (case kw_nex2ecl var of
        Some ecl_kw \<Rightarrow>
          let unit = unit_str var;
              (n, e) = ecl_sum_add_var e ecl_kw unit;
              var_values = filter (is_varname var) field;
              nodes = nodes @ map (\<lambda>i. \<lparr>node = n, val = value' (var_values ! i), timestep_index = i\<rparr>)
                                  [0..<length var_values]
          in field_vars vars unit_str field nodes e cerr
      | None \<Rightarrow> field_vars vars unit_str field nodes e (cerr @ [warning var]))"

text \<open>
  The first lines of \<open>field_smspec\<close>: the samples of class \<open>FIELD\<close> and instance
  \<open>NETWORK\<close>, in file order, and then sorted.
\<close>

definition field_filtered :: "'u NexusPlot \<Rightarrow> NexusData list" where
  "field_filtered plt =
     filter (\<lambda>nd. is_classname ''FIELD'' nd \<and> is_instancename ''NETWORK'' nd) (data plt)"

definition field_sorted :: "(NexusData list \<Rightarrow> NexusData list) \<Rightarrow> 'u NexusPlot \<Rightarrow> NexusData list" where
  "field_sorted srt plt = srt (field_filtered plt)"

definition field_smspec ::
  "(NexusData list \<Rightarrow> NexusData list) \<Rightarrow> ('u \<Rightarrow> string \<Rightarrow> string) \<Rightarrow> eclvar list \<Rightarrow> ecl_sum
     \<Rightarrow> 'u NexusPlot \<Rightarrow> eclvar list \<times> ecl_sum \<times> string list" where
  "field_smspec srt unit_str nodes e plt =
     (let field = field_sorted srt plt;
          field_class_vars = varnames plt ''FIELD''
      in field_vars field_class_vars (unit_str (unit_system (header plt))) field nodes e [])"

text \<open>
  The loop that creates the timestep records. \<open>nex_times[i]\<close> is read without a
  check; \<open>fmul\<close> is the product of two floats.
\<close>

definition seconds_per_day :: float where
  "seconds_per_day = 0x47A8C000"

fun add_tsteps ::
  "(float \<Rightarrow> float \<Rightarrow> float) \<Rightarrow> nat \<Rightarrow> nat \<Rightarrow> float list \<Rightarrow> nat list \<Rightarrow> ecl_sum
     \<Rightarrow> error + (nat list \<times> ecl_sum)" where
  "add_tsteps fmul i 0 nex_times timesteps e = Inr (timesteps, e)"
| "add_tsteps fmul i (Suc n) nex_times timesteps e =
     (if length nex_times \<le> i then Inl Undefined
      else
        let (ts, e) = ecl_sum_add_tstep e (i + 1) (fmul (nex_times ! i) seconds_per_day)
        in add_tsteps fmul (i + 1) n nex_times (timesteps @ [ts]) e)"

text \<open>The loop that sets the values; \<open>timesteps[node.timestep_index]\<close> has no check.\<close>

fun set_nodes :: "eclvar list \<Rightarrow> nat list \<Rightarrow> ecl_sum \<Rightarrow> error + ecl_sum" where
  "set_nodes [] timesteps e = Inr e"
| "set_nodes (nd # nodes) timesteps e =
     (if length timesteps \<le> timestep_index nd then Inl Undefined
      else set_nodes nodes timesteps
             (ecl_sum_tstep_set_from_node e (timesteps ! timestep_index nd) (node nd) (val nd)))"

definition ecl_summary ::
  "(NexusData list \<Rightarrow> NexusData list) \<Rightarrow> ('u \<Rightarrow> string \<Rightarrow> string) \<Rightarrow> (float \<Rightarrow> float \<Rightarrow> float)
     \<Rightarrow> string \<Rightarrow> 'u NexusPlot \<Rightarrow> error + (ecl_sum \<times> string list)" where
  "ecl_summary srt unit_str fmul ecl_case' plt =
     (let h = header plt;
          e = ecl_sum_alloc_writer ecl_case' True True '':'' (day h, month h, year h) True
                (nx h) (ny h) (nz h);
          (smspec_nodes, e, cerr) = field_smspec srt unit_str [] e plt;
          nex_timesteps = unique plt get_timestep id;
          nex_times = unique plt get_time float_key
      in
      case add_tsteps fmul 0 (length nex_timesteps) nex_times [] e of
        Inl err \<Rightarrow> Inl err
      | Inr (timesteps, e) \<Rightarrow>
          (case set_nodes smspec_nodes timesteps e of
             Inl err \<Rightarrow> Inl err
           | Inr e \<Rightarrow> Inr (e, cerr)))"

section \<open>Units\<close>

text \<open>
  The measures of \<open>nexus/unit.hpp\<close> and their unit strings in the metric-bars system,
  as \<open>test_metric_bars_units\<close> expects them. A unit system is its table from
  measures to unit strings.
\<close>

datatype Measure =
    compressibility | density | formation_volume_factor_gas | formation_volume_factor_oil
  | fraction | gas_liquid_ratio | length_measure | moles | permeability | pressure
  | pressure_absolute | reservoir_rates | reservoir_volumes | surface_rates_gas
  | surface_rates_liquid | surface_volumes_gas | surface_volumes_liquid | temperature
  | time_measure | viscosity | volume | water_cut

type_synonym UnitSystem = "Measure \<Rightarrow> string"

fun metric_bars :: UnitSystem where
  "metric_bars compressibility = ''BARS-1''"
| "metric_bars density = ''KG/M3''"
| "metric_bars formation_volume_factor_gas = ''RM3/SM3''"
| "metric_bars formation_volume_factor_oil = ''RM3/SM3''"
| "metric_bars fraction = []"
| "metric_bars gas_liquid_ratio = ''SM3/SM3''"
| "metric_bars length_measure = ''M''"
| "metric_bars moles = ''KG-M''"
| "metric_bars permeability = ''MD''"
| "metric_bars pressure = ''BARS''"
| "metric_bars pressure_absolute = ''BARSA''"
| "metric_bars reservoir_rates = ''RM3/DAY''"
| "metric_bars reservoir_volumes = ''kRM3''"
| "metric_bars surface_rates_gas = ''SM3/DAY''"
| "metric_bars surface_rates_liquid = ''SM3/DAY''"
| "metric_bars surface_volumes_gas = ''kSM3''"
| "metric_bars surface_volumes_liquid = ''kSM3''"
| "metric_bars temperature = ''C''"
| "metric_bars time_measure = ''DAY''"
| "metric_bars viscosity = ''CP''"
| "metric_bars volume = ''M3''"
| "metric_bars water_cut = ''SM3/SM3''"

text \<open>
  Modelled from the spec: \<open>UnitSystem::unit_str\<close> on a variable code is not among the
  sources. The spec has it go from the code to a measure and from the measure to the
  unit string, empty for a code without a measure; of the codes it names the oil rate
  \<open>QOP\<close>, a liquid rate at the surface, and the water cut \<open>WCUT\<close>.
\<close>

definition measure_of_code :: "string \<rightharpoonup> Measure" where
  "measure_of_code = map_of [(''QOP'', surface_rates_liquid), (''WCUT'', water_cut)]"

definition unit_str :: "UnitSystem \<Rightarrow> string \<Rightarrow> string" where
  "unit_str u code = (case measure_of_code code of None \<Rightarrow> [] | Some m \<Rightarrow> u m)"

section \<open>Positions in the header\<close>

text \<open>
  The stream after the four skipped blobs and after the padding, and the \<open>k\<close>-th of
  the eight integers of a header as the big-endian value of its four chars.
\<close>

definition hdr_s2 :: "(nat \<Rightarrow> char) \<Rightarrow> istream \<Rightarrow> istream" where
  "hdr_s2 junk stream = seekg_cur 6 (seekg_cur 6 (seekg_cur 6 (seekg_cur 6
     (snd (read_str junk 12 (seekg_beg 4 stream))))))"

definition hdr_s3 :: "(nat \<Rightarrow> char) \<Rightarrow> istream \<Rightarrow> istream" where
  "hdr_s3 junk stream = seekg_cur (530 + 264) (snd (read_str junk 6 (hdr_s2 junk stream)))"

definition hdr_int :: "string \<Rightarrow> nat \<Rightarrow> int" where
  "hdr_int cs k = sint (be_word (take 4 (drop (840 + 4 * k) cs)))"

section \<open>Example inputs\<close>

text \<open>
  A unit-system constructor that knows one tag, and the 872 chars of a header with
  that tag before its eight integers.
\<close>

definition example_unit_ctor :: "string \<Rightarrow> error + UnitSystem" where
  "example_unit_ctor us = (if us = ''METBAR'' then Inr metric_bars else Inl UnrecognizedUnitSystem)"

definition example_header :: "string \<Rightarrow> string" where
  "example_header ints =
     ''    '' @ ''PLOT  BIN   '' @ ''V1.0  '' @ ''NEXUS '' @ ''5000.4'' @ ''.0    '' @ ''METBAR''
       @ zeros 794 @ ints"

definition example_ints :: string where
  "example_ints =
     [CHR 0x00, CHR 0x00, CHR 0x00, CHR 0x01,  CHR 0x00, CHR 0x00, CHR 0x00, CHR 0x01,
      CHR 0x00, CHR 0x00, CHR 0x00, CHR 0x01,  CHR 0x00, CHR 0x00, CHR 0x07, CHR 0xBC,
      CHR 0x00, CHR 0x00, CHR 0x00, CHR 0x01,  CHR 0x00, CHR 0x00, CHR 0x00, CHR 0x01,
      CHR 0x00, CHR 0x00, CHR 0x00, CHR 0x01,  CHR 0x00, CHR 0x00, CHR 0x00, CHR 0x03]"

definition negative_ints :: string where
  "negative_ints =
     [CHR 0x00, CHR 0x00, CHR 0x00, CHR 0x01,  CHR 0x00, CHR 0x00, CHR 0x00, CHR 0x01,
      CHR 0x00, CHR 0x00, CHR 0x00, CHR 0x01,  CHR 0x00, CHR 0x00, CHR 0x07, CHR 0xBC,
      CHR 0xFF, CHR 0xFF, CHR 0xFF, CHR 0xFF,  CHR 0x00, CHR 0x00, CHR 0x00, CHR 0x01,
      CHR 0x00, CHR 0x00, CHR 0x00, CHR 0x01,  CHR 0x00, CHR 0x00, CHR 0x00, CHR 0x03]"

section \<open>Closed form of the conversion\<close>


definition converted_codes :: "string list \<Rightarrow> string list" where
  "converted_codes vars = filter (\<lambda>v. kw_nex2ecl v \<noteq> None) vars"

definition skipped_codes :: "string list \<Rightarrow> string list" where
  "skipped_codes vars = filter (\<lambda>v. kw_nex2ecl v = None) vars"

definition node_list :: "nat \<Rightarrow> NexusData list \<Rightarrow> eclvar list" where
  "node_list n vals =
     map (\<lambda>i. \<lparr>node = n, val = value' (vals ! i), timestep_index = i\<rparr>) [0..<length vals]"

fun series_nodes :: "nat \<Rightarrow> string list \<Rightarrow> NexusData list \<Rightarrow> eclvar list" where
  "series_nodes n [] field = []"
| "series_nodes n (v # vs) field =
     node_list n (filter (is_varname v) field) @ series_nodes (Suc n) vs field"

definition final_value :: "eclvar list \<Rightarrow> nat \<Rightarrow> nat \<Rightarrow> float option \<Rightarrow> float option" where
  "final_value nodes k n acc =
     fold (\<lambda>nd acc. if timestep_index nd = k \<and> node nd = n then Some (val nd) else acc) nodes acc"

definition series_value :: "NexusData list \<Rightarrow> string list \<Rightarrow> nat \<Rightarrow> nat \<Rightarrow> float option" where
  "series_value field codes k n =
     (if n < length codes \<and> k < length (filter (is_varname (codes ! n)) field)
      then Some (value' (filter (is_varname (codes ! n)) field ! k)) else None)"

definition summary_of ::
  "(NexusData list \<Rightarrow> NexusData list) \<Rightarrow> ('u \<Rightarrow> string \<Rightarrow> string) \<Rightarrow> (float \<Rightarrow> float \<Rightarrow> float)
     \<Rightarrow> string \<Rightarrow> 'u NexusPlot \<Rightarrow> ecl_sum" where
  "summary_of srt u fmul c plt =
     \<lparr>ecl_case = c, fmt_output = True, unified = True, key_join_string = '':'',
      sim_start = (day (header plt), month (header plt), year (header plt)),
      time_in_days = True,
      dims = (nx (header plt), ny (header plt), nz (header plt)),
      smspec_vars = map (\<lambda>v. (the (kw_nex2ecl v), u (unit_system (header plt)) v))
                      (converted_codes (varnames plt ''FIELD'')),
      tsteps = map (\<lambda>k. \<lparr>report_step = k + 1,
                          sim_seconds = fmul (unique plt get_time float_key ! k) seconds_per_day,
                          node_values = series_value (field_sorted srt plt)
                                          (converted_codes (varnames plt ''FIELD'')) k\<rparr>)
                 [0..<length (unique plt get_timestep id)]\<rparr>"

definition in_bounds :: "(NexusData list \<Rightarrow> NexusData list) \<Rightarrow> 'u NexusPlot \<Rightarrow> bool" where
  "in_bounds srt plt \<longleftrightarrow>
     length (unique plt get_timestep id) \<le> length (unique plt get_time float_key)
     \<and> list_all (\<lambda>v. length (filter (is_varname v) (field_sorted srt plt))
                        \<le> length (unique plt get_timestep id))
          (converted_codes (varnames plt ''FIELD''))"

definition example_field :: "string \<Rightarrow> float \<Rightarrow> float \<Rightarrow> NexusData" where
  "example_field code t v =
     \<lparr>timestep = 1, time = t, max_perfs = 0, classname = ''FIELD   '',
      instancename = ''NETWORK '', varname = code, value' = v\<rparr>"

definition example_hdr :: "UnitSystem NexusHeader" where
  "example_hdr = \<lparr>unit_system = metric_bars, num_classes = 1, day = 1, month = 1, year = 1980,
                   nx = 1, ny = 1, nz = 1, ncomp = 3\<rparr>"

definition example_plot :: "UnitSystem NexusPlot" where
  "example_plot =
     \<lparr>header = example_hdr,
      data = [example_field ''QOP '' 0 0x41480000, example_field ''WCUT'' 0 0x3E99999A]\<rparr>"

section \<open>Further example plots\<close>


definition inconsistent_plot :: "UnitSystem NexusPlot" where
  "inconsistent_plot =
     \<lparr>header = example_hdr,
      data = [example_field ''QOP '' 0 0x41480000, example_field ''WCUT'' 0x3F800000 0x3E99999A]\<rparr>"


section \<open>Layout of a record block\<close>

text \<open>
  A stream that is good, with the chars \<open>pre\<close> behind its position and the chars
  \<open>rest\<close> ahead.
\<close>

definition stream_at :: "istream \<Rightarrow> string \<Rightarrow> string \<Rightarrow> bool" where
  "stream_at s pre rest \<longleftrightarrow>
     \<not> failbit s \<and> \<not> eofbit s \<and> content s = pre @ rest \<and> gpos s = length pre"

type_synonym item = "string \<times> string \<times> string \<times> string list"

definition item_bytes :: "item \<Rightarrow> string" where
  "item_bytes it = (case it of (sep, inst, skip, vals) \<Rightarrow> sep @ inst @ skip @ concat vals)"

definition valid_item :: "nat \<Rightarrow> item \<Rightarrow> bool" where
  "valid_item n it \<longleftrightarrow>
     (case it of (sep, inst, skip, vals) \<Rightarrow>
        length sep = 8 \<and> length inst = 8 \<and> length skip = 64 \<and> length vals = n
        \<and> list_all (\<lambda>v. length v = 4) vals)"

definition item_samples ::
  "int \<Rightarrow> float \<Rightarrow> int \<Rightarrow> string \<Rightarrow> string list \<Rightarrow> item \<Rightarrow> NexusData list" where
  "item_samples ts t mp cn codes it =
     (case it of (sep, inst, skip, vals) \<Rightarrow>
        map2 (\<lambda>code v. \<lparr>timestep = ts, time = t, max_perfs = mp, classname = cn,
                         instancename = inst, varname = code, value' = be_word v\<rparr>) codes vals)"

definition truncate_real :: "real \<Rightarrow> int" where
  "truncate_real x = (if x < 0 then - \<lfloor>- x\<rfloor> else \<lfloor>x\<rfloor>)"

definition example_catalog :: catalog where
  "example_catalog = [''FIELD   '' \<mapsto> [''QOP '', ''WCUT'']]"

definition example_words :: "string list" where
  "example_words =
     [[CHR 0x3F, CHR 0x80, CHR 0x00, CHR 0x00], [CHR 0x00, CHR 0x00, CHR 0x00, CHR 0x00],
      [CHR 0x3F, CHR 0x80, CHR 0x00, CHR 0x00], [CHR 0x00, CHR 0x00, CHR 0x00, CHR 0x00],
      [CHR 0x00, CHR 0x00, CHR 0x00, CHR 0x00]]"

definition example_item :: item where
  "example_item =
     (zeros 8, ''NETWORK '', zeros 64,
      [[CHR 0x41, CHR 0x48, CHR 0x00, CHR 0x00], [CHR 0x3E, CHR 0x99, CHR 0x99, CHR 0x9A]])"

definition example_block :: string where
  "example_block =
     ''FIELD   '' @ zeros 8 @ concat example_words @ concat (map item_bytes [example_item]) @ zeros 8"

definition unknown_item :: item where
  "unknown_item = (zeros 8, ''PROD1   '', zeros 64, [])"

definition unknown_block :: string where
  "unknown_block =
     ''WELL    '' @ zeros 8 @ concat example_words @ concat (map item_bytes [unknown_item]) @ zeros 8"

section \<open>Streams: basic facts\<close>

lemma content_read [simp]: "content (snd (stream_read buf n s)) = content s"
  by (simp add: stream_read_def Let_def)

lemma kind_read [simp]: "buf_kind (snd (stream_read buf n s)) = buf_kind s"
  by (simp add: stream_read_def Let_def)

lemma failbit_read:
  "failbit (snd (stream_read buf n s)) \<longleftrightarrow> \<not> good s \<or> length (content s) - gpos s < n"
  by (auto simp: stream_read_def Let_def good_def)

lemma eofbit_read:
  "eofbit (snd (stream_read buf n s)) \<longleftrightarrow>
     eofbit s \<or> (\<not> failbit s \<and> length (content s) - gpos s < n)"
  by (auto simp: stream_read_def Let_def good_def)

lemma gpos_read:
  "gpos (snd (stream_read buf n s)) =
     (if good s then gpos s + min n (length (content s) - gpos s) else gpos s)"
  by (auto simp: stream_read_def Let_def good_def min_def)

lemma fst_read:
  "fst (stream_read buf n s) =
     (if good s then take n (drop (gpos s) (content s)) @ drop (min n (length (content s) - gpos s)) buf
      else buf)"
  by (auto simp: stream_read_def Let_def good_def min_def)

lemma content_seek [simp]: "content (seekg_to p s) = content s"
  by (simp add: seekg_to_def Let_def)

lemma kind_seek [simp]: "buf_kind (seekg_to p s) = buf_kind s"
  by (simp add: seekg_to_def Let_def)

lemma eofbit_seek [simp]: "eofbit (seekg_to p s) = False"
  by (simp add: seekg_to_def Let_def)

lemma failbit_seek:
  "failbit (seekg_to p s) \<longleftrightarrow> failbit s \<or> (buf_kind s = StringBuf \<and> length (content s) < p)"
  by (auto simp: seekg_to_def Let_def)

lemma gpos_seek:
  "gpos (seekg_to p s) =
     (if failbit s \<or> (buf_kind s = StringBuf \<and> length (content s) < p) then gpos s else p)"
  by (auto simp: seekg_to_def Let_def)

lemma content_seek_cur [simp]: "content (seekg_cur k s) = content s"
  by (simp add: seekg_cur_def)

lemma kind_seek_cur [simp]: "buf_kind (seekg_cur k s) = buf_kind s"
  by (simp add: seekg_cur_def)

lemma eofbit_seek_cur [simp]: "eofbit (seekg_cur k s) = False"
  by (simp add: seekg_cur_def)

lemma failbit_seek_cur:
  "failbit (seekg_cur k s) \<longleftrightarrow>
     failbit s \<or> (buf_kind s = StringBuf \<and> length (content s) < gpos s + k)"
  by (simp add: seekg_cur_def failbit_seek)

lemma gpos_seek_cur:
  "gpos (seekg_cur k s) =
     (if failbit s \<or> (buf_kind s = StringBuf \<and> length (content s) < gpos s + k) then gpos s
      else gpos s + k)"
  by (simp add: seekg_cur_def gpos_seek)

lemmas proj = failbit_read eofbit_read gpos_read failbit_seek gpos_seek failbit_seek_cur gpos_seek_cur

lemma length_uninit [simp]: "length (uninit junk n) = n"
  by (simp add: uninit_def)

lemma length_zeros [simp]: "length (zeros n) = n"
  by (simp add: zeros_def)

lemma length_type_tag [simp]: "length type_tag = 12"
  by (simp add: type_tag_def)

lemma read_goodD:
  assumes "\<not> failbit (snd (stream_read b n s))"
  shows "\<not> failbit s \<and> \<not> eofbit s \<and> n \<le> length (content s) - gpos s
     \<and> gpos (snd (stream_read b n s)) = gpos s + n
     \<and> \<not> eofbit (snd (stream_read b n s))
     \<and> fst (stream_read b n s) = take n (drop (gpos s) (content s)) @ drop n b"
  using assms by (auto simp: stream_read_def Let_def good_def split: if_splits)

lemma seek_goodD:
  assumes "\<not> failbit (seekg_to p s)"
  shows "\<not> failbit s \<and> gpos (seekg_to p s) = p \<and> (buf_kind s = StringBuf \<longrightarrow> p \<le> length (content s))"
  using assms by (auto simp: seekg_to_def Let_def split: if_splits)

lemma seek_cur_goodD:
  assumes "\<not> failbit (seekg_cur k s)"
  shows "\<not> failbit s \<and> gpos (seekg_cur k s) = gpos s + k
    \<and> (buf_kind s = StringBuf \<longrightarrow> gpos s + k \<le> length (content s))"
  using assms unfolding seekg_cur_def by (auto dest: seek_goodD)

lemma read_ok:
  "\<not> failbit s \<Longrightarrow> \<not> eofbit s \<Longrightarrow> gpos s + n \<le> length (content s) \<Longrightarrow>
   stream_read b n s = (take n (drop (gpos s) (content s)) @ drop n b, s\<lparr>gpos := gpos s + n\<rparr>)"
  by (simp add: stream_read_def good_def Let_def)

lemma seek_to_ok:
  "\<not> failbit s \<Longrightarrow> p \<le> length (content s) \<Longrightarrow>
   seekg_to p s = s\<lparr>eofbit := False, gpos := p\<rparr>"
  by (simp add: seekg_to_def Let_def)

lemma seek_cur_ok:
  "\<not> failbit s \<Longrightarrow> gpos s + k \<le> length (content s) \<Longrightarrow>
   seekg_cur k s = s\<lparr>eofbit := False, gpos := gpos s + k\<rparr>"
  by (simp add: seekg_cur_def seek_to_ok)

lemmas stream_ok = read_ok seek_to_ok seek_cur_ok

section \<open>Words: basic facts\<close>

lemma bit_of_char_word: "bit (of_char c :: 32 word) n \<Longrightarrow> n < 8"
proof -
  assume a: "bit (of_char c :: 32 word) n"
  have "(of_char c :: 32 word) = of_nat (of_char c)" by (simp add: of_nat_of_char)
  with a have "bit (of_char c :: nat) n" by (simp only: bit_of_nat_iff)
  moreover have "(of_char c :: nat) < 2 ^ 8" by simp
  ultimately show ?thesis
    by (metis bit_take_bit_iff take_bit_nat_eq_self)
qed

lemma of_char_high_bits: "8 \<le> n \<Longrightarrow> bit (of_char c :: 32 word) n = False"
  using bit_of_char_word[of c n] by auto

lemma ntoh_le_word: "ntoh (le_word [a, b, c, d]) = be_word [a, b, c, d]"
proof (rule bit_eqI)
  fix n
  assume "possible_bit TYPE(32 word) n"
  then have n: "n < 32" by (simp add: possible_bit_def)
  have "n = n - 0 \<and> n < 8 \<or> n = 8 + (n - 8) \<and> n - 8 < 8 \<or> n = 16 + (n - 16) \<and> n - 16 < 8
      \<or> n = 24 + (n - 24) \<and> n - 24 < 8"
    using n by arith
  then obtain m where "m < 8" and "n = m \<or> n = 8 + m \<or> n = 16 + m \<or> n = 24 + m"
    by (elim disjE conjE) (rule that[of "n"], simp, simp, rule that[of "n - 8"], simp, simp,
      rule that[of "n - 16"], simp, simp, rule that[of "n - 24"], simp, simp)
  then consider "n = m" "m < 8" | "n = 8 + m" "m < 8" | "n = 16 + m" "m < 8" | "n = 24 + m" "m < 8"
    by blast
  then show "bit (ntoh (le_word [a, b, c, d])) n = bit (be_word [a, b, c, d]) n"
  proof cases
    case 1
    then show ?thesis by (simp add: ntoh_def be_word_def bit_simps of_char_high_bits)
  next
    case 2
    then show ?thesis by (simp add: ntoh_def be_word_def bit_simps of_char_high_bits)
  next
    case 3
    then show ?thesis by (simp add: ntoh_def be_word_def bit_simps of_char_high_bits)
  next
    case 4
    then show ?thesis by (simp add: ntoh_def be_word_def bit_simps of_char_high_bits)
  qed
qed

lemma length4E:
  assumes "length xs = 4"
  obtains a b c d where "xs = [a, b, c, d]"
proof -
  from assms obtain a xs1 where 1: "xs = a # xs1" "length xs1 = 3" by (cases xs) auto
  then obtain b xs2 where 2: "xs1 = b # xs2" "length xs2 = 2" by (cases xs1) auto
  then obtain c xs3 where 3: "xs2 = c # xs3" "length xs3 = 1" by (cases xs2) auto
  then obtain d where "xs3 = [d]" by (cases xs3) auto
  with 1 2 3 show ?thesis using that by simp
qed

lemma int32_at_be_word:
  assumes "4 * k + 4 \<le> length buf"
  shows "int32_at buf k = be_word (take 4 (drop (4 * k) buf))"
proof -
  have "length (take 4 (drop (4 * k) buf)) = 4" using assms by simp
  then obtain a b c d where "take 4 (drop (4 * k) buf) = [a, b, c, d]" by (rule length4E)
  then show ?thesis by (simp only: int32_at_def ntoh_le_word)
qed


section \<open>The header decoder\<close>

lemmas stream_simps = read_str_def seekg_beg_def good_def

lemma hdr1_fwd:
  "\<not> failbit stream \<Longrightarrow> 16 \<le> length (content stream) \<Longrightarrow>
   good (snd (read_str junk 12 (seekg_beg 4 stream))) \<and>
   fst (read_str junk 12 (seekg_beg 4 stream)) = take 12 (drop 4 (content stream))" 
  by (simp add: stream_simps stream_ok)

lemma hdr1_bwd:
  "good (snd (read_str junk 12 (seekg_beg 4 stream))) \<Longrightarrow>
   \<not> failbit stream \<and> 16 \<le> length (content stream)" 
  unfolding stream_simps
  apply (elim conjE)
  apply ((drule read_goodD | drule seek_goodD | drule seek_cur_goodD | elim conjE)+)
  apply (simp only: content_read content_seek content_seek_cur)
  apply arith
  done

lemma hdr2_fwd:
  "\<not> failbit stream \<Longrightarrow> 46 \<le> length (content stream) \<Longrightarrow>
   good (snd (read_str junk 6 (hdr_s2 junk stream))) \<and>
   fst (read_str junk 6 (hdr_s2 junk stream)) = take 6 (drop 40 (content stream))" 
  by (simp add: stream_simps stream_ok hdr_s2_def)

lemma hdr2_bwd:
  "good (snd (read_str junk 6 (hdr_s2 junk stream))) \<Longrightarrow>
   \<not> failbit stream \<and> 46 \<le> length (content stream)" 
  unfolding stream_simps hdr_s2_def
  apply (elim conjE)
  apply ((drule read_goodD | drule seek_goodD | drule seek_cur_goodD | elim conjE)+)
  apply (simp only: content_read content_seek content_seek_cur)
  apply arith
  done

lemma hdr3_fwd:
  "\<not> failbit stream \<Longrightarrow> 872 \<le> length (content stream) \<Longrightarrow>
   good (snd (stream_read (zeros 32) 32 (hdr_s3 junk stream))) \<and>
   gpos (snd (stream_read (zeros 32) 32 (hdr_s3 junk stream))) = 872 \<and>
   fst (stream_read (zeros 32) 32 (hdr_s3 junk stream)) = take 32 (drop 840 (content stream))" 
  by (simp add: stream_simps stream_ok hdr_s2_def hdr_s3_def)

lemma hdr3_bwd:
  "good (snd (stream_read (zeros 32) 32 (hdr_s3 junk stream))) \<Longrightarrow>
   \<not> failbit stream \<and> 872 \<le> length (content stream)" 
  unfolding stream_simps hdr_s2_def hdr_s3_def
  apply (elim conjE)
  apply ((drule read_goodD | drule seek_goodD | drule seek_cur_goodD | elim conjE)+)
  apply (simp only: content_read content_seek content_seek_cur)
  apply arith
  done

lemma hdr_ints:
  assumes "872 \<le> length cs" "k < 8"
  shows "sint (int32_at (take 32 (drop 840 cs)) k) = hdr_int cs k"
proof -
  have "4 * k + 4 \<le> length (take 32 (drop 840 cs))" using assms by simp
  then have "int32_at (take 32 (drop 840 cs)) k = be_word (take 4 (drop (4 * k) (take 32 (drop 840 cs))))"
    by (rule int32_at_be_word)
  moreover have "take 4 (drop (4 * k) (take 32 (drop 840 cs))) = take 4 (drop (840 + 4 * k) cs)"
    using assms by (simp add: drop_take add.commute min_def)
  ultimately show ?thesis by (simp add: hdr_int_def)
qed

lemma read_header_unfold:
  "read_header uc junk stream =
     (if fst (read_str junk 12 (seekg_beg 4 stream)) \<noteq> type_tag
         \<or> \<not> good (snd (read_str junk 12 (seekg_beg 4 stream))) then Inl BadHeader
      else if \<not> good (snd (read_str junk 6 (hdr_s2 junk stream))) then Inl UnexpectedEof
      else case uc (fst (read_str junk 6 (hdr_s2 junk stream))) of
        Inl e \<Rightarrow> Inl e
      | Inr u \<Rightarrow>
          if \<not> good (snd (stream_read (zeros 32) 32 (hdr_s3 junk stream))) then Inl UnexpectedEof
          else let buf = map (int32_at (fst (stream_read (zeros 32) 32 (hdr_s3 junk stream)))) [0..<8] in
            if list_ex (\<lambda>x. sint x < 0) buf then Inl BadHeader
            else Inr (\<lparr>unit_system = u,
                        num_classes = sint (buf ! 0), day = sint (buf ! 1),
                        month = sint (buf ! 2), year = sint (buf ! 3),
                        nx = sint (buf ! 4), ny = sint (buf ! 5),
                        nz = sint (buf ! 6), ncomp = sint (buf ! 7)\<rparr>,
                      snd (stream_read (zeros 32) 32 (hdr_s3 junk stream))))"
  unfolding read_header_def hdr_s2_def hdr_s3_def Let_def case_prod_beta
  by (rule refl)

lemma content_hdr_s3 [simp]: "content (hdr_s3 junk stream) = content stream"
  by (simp add: hdr_s3_def hdr_s2_def read_str_def seekg_beg_def)

lemma upt8: "[0..<8] = [0, 1, 2, 3, 4, 5, 6, 7]"
  by (simp add: upt_rec)

text \<open>
  C4: the header decoder. With the stream not failed at the start: a stream that ends
  before the 12 chars of the type tag at offset 4 are read, or whose tag is not
  \<open>PLOT  BIN   \<close>, gives \<open>BadHeader\<close>; with the tag right, a stream that ends
  before the unit-system tag gives \<open>UnexpectedEof\<close>; an error of the unit-system
  constructor is passed on; with the unit system built, a stream that ends before all
  eight integers are read gives \<open>UnexpectedEof\<close>, an integer that is negative as a
  big-endian value gives \<open>BadHeader\<close>, and otherwise the header is returned with
  the eight big-endian values, all of them non-negative, the stream good at offset 872.
\<close>

theorem read_header_outcomes:
  assumes nf: "\<not> failbit stream"
  shows "(length (content stream) < 16 \<or> take 12 (drop 4 (content stream)) \<noteq> type_tag
            \<longrightarrow> read_header uc junk stream = Inl BadHeader)
     \<and> (take 12 (drop 4 (content stream)) = type_tag \<and> length (content stream) < 46
            \<longrightarrow> read_header uc junk stream = Inl UnexpectedEof)
     \<and> (take 12 (drop 4 (content stream)) = type_tag \<and> 46 \<le> length (content stream) \<longrightarrow>
          (case uc (take 6 (drop 40 (content stream))) of
             Inl e \<Rightarrow> read_header uc junk stream = Inl e
           | Inr u \<Rightarrow>
               (length (content stream) < 872 \<longrightarrow> read_header uc junk stream = Inl UnexpectedEof)
             \<and> (872 \<le> length (content stream) \<and> (\<exists>k<8. hdr_int (content stream) k < 0)
                   \<longrightarrow> read_header uc junk stream = Inl BadHeader)
             \<and> (872 \<le> length (content stream) \<and> (\<forall>k<8. 0 \<le> hdr_int (content stream) k) \<longrightarrow>
                   (\<exists>h s. read_header uc junk stream = Inr (h, s)
                      \<and> unit_system h = u
                      \<and> [num_classes h, day h, month h, year h, nx h, ny h, nz h, ncomp h]
                          = map (hdr_int (content stream)) [0..<8]
                      \<and> 0 \<le> num_classes h \<and> 0 \<le> day h \<and> 0 \<le> month h \<and> 0 \<le> year h
                      \<and> 0 \<le> nx h \<and> 0 \<le> ny h \<and> 0 \<le> nz h \<and> 0 \<le> ncomp h
                      \<and> good s \<and> gpos s = 872 \<and> content s = content stream))))"
    (is "?A \<and> ?B \<and> ?C")
proof (intro conjI)
  show ?A
  proof
    assume "length (content stream) < 16 \<or> take 12 (drop 4 (content stream)) \<noteq> type_tag"
    then show "read_header uc junk stream = Inl BadHeader"
    proof
      assume "length (content stream) < 16"
      then have "\<not> good (snd (read_str junk 12 (seekg_beg 4 stream)))"
        using hdr1_bwd[of junk stream] by auto
      then show ?thesis by (simp add: read_header_unfold)
    next
      assume t: "take 12 (drop 4 (content stream)) \<noteq> type_tag"
      show ?thesis
      proof (cases "16 \<le> length (content stream)")
        case True
        then show ?thesis using t hdr1_fwd[OF nf True, of junk] by (simp add: read_header_unfold)
      next
        case False
        then have "\<not> good (snd (read_str junk 12 (seekg_beg 4 stream)))"
          using hdr1_bwd[of junk stream] by auto
        then show ?thesis by (simp add: read_header_unfold)
      qed
    qed
  qed
next
  show ?B
  proof
    assume a: "take 12 (drop 4 (content stream)) = type_tag \<and> length (content stream) < 46"
    then have "length (take 12 (drop 4 (content stream))) = 12" by simp
    then have l: "16 \<le> length (content stream)" by simp
    have "\<not> good (snd (read_str junk 6 (hdr_s2 junk stream)))"
      using a hdr2_bwd[of junk stream] by auto
    then show "read_header uc junk stream = Inl UnexpectedEof"
      using a hdr1_fwd[OF nf l, of junk] by (simp add: read_header_unfold)
  qed
next
  show ?C
  proof
    assume a: "take 12 (drop 4 (content stream)) = type_tag \<and> 46 \<le> length (content stream)"
    then have l1: "16 \<le> length (content stream)" and l2: "46 \<le> length (content stream)" by auto
    note s1 = hdr1_fwd[OF nf l1, of junk] and s2 = hdr2_fwd[OF nf l2, of junk]
    show "case uc (take 6 (drop 40 (content stream))) of
             Inl e \<Rightarrow> read_header uc junk stream = Inl e
           | Inr u \<Rightarrow>
               (length (content stream) < 872 \<longrightarrow> read_header uc junk stream = Inl UnexpectedEof)
             \<and> (872 \<le> length (content stream) \<and> (\<exists>k<8. hdr_int (content stream) k < 0)
                   \<longrightarrow> read_header uc junk stream = Inl BadHeader)
             \<and> (872 \<le> length (content stream) \<and> (\<forall>k<8. 0 \<le> hdr_int (content stream) k) \<longrightarrow>
                   (\<exists>h s. read_header uc junk stream = Inr (h, s)
                      \<and> unit_system h = u
                      \<and> [num_classes h, day h, month h, year h, nx h, ny h, nz h, ncomp h]
                          = map (hdr_int (content stream)) [0..<8]
                      \<and> 0 \<le> num_classes h \<and> 0 \<le> day h \<and> 0 \<le> month h \<and> 0 \<le> year h
                      \<and> 0 \<le> nx h \<and> 0 \<le> ny h \<and> 0 \<le> nz h \<and> 0 \<le> ncomp h
                      \<and> good s \<and> gpos s = 872 \<and> content s = content stream))"
    proof (cases "uc (take 6 (drop 40 (content stream)))")
      case (Inl e)
      then show ?thesis using a s1 s2 by (simp add: read_header_unfold)
    next
      case (Inr u)
      have short: "read_header uc junk stream = Inl UnexpectedEof" if "length (content stream) < 872"
      proof -
        have "\<not> good (snd (stream_read (zeros 32) 32 (hdr_s3 junk stream)))"
          using that hdr3_bwd[of junk stream] by auto
        then show ?thesis using a s1 s2 Inr by (simp add: read_header_unfold)
      qed
      have neg: "read_header uc junk stream = Inl BadHeader"
        if l3: "872 \<le> length (content stream)" and ex: "\<exists>k<8. hdr_int (content stream) k < 0"
      proof -
        note s3 = hdr3_fwd[OF nf l3, of junk]
        from ex obtain k where k: "k < 8" "hdr_int (content stream) k < 0" by blast
        then have "sint (int32_at (take 32 (drop 840 (content stream))) k) < 0"
          using hdr_ints[OF l3] by simp
        then have "list_ex (\<lambda>x. sint x < 0) (map (int32_at (take 32 (drop 840 (content stream)))) [0..<8])"
          using k(1) by (auto simp: list_ex_iff)
        then show ?thesis using a s1 s2 s3 Inr by (simp add: read_header_unfold Let_def)
      qed
      have pos: "\<exists>h s. read_header uc junk stream = Inr (h, s)
                      \<and> unit_system h = u
                      \<and> [num_classes h, day h, month h, year h, nx h, ny h, nz h, ncomp h]
                          = map (hdr_int (content stream)) [0..<8]
                      \<and> 0 \<le> num_classes h \<and> 0 \<le> day h \<and> 0 \<le> month h \<and> 0 \<le> year h
                      \<and> 0 \<le> nx h \<and> 0 \<le> ny h \<and> 0 \<le> nz h \<and> 0 \<le> ncomp h
                      \<and> good s \<and> gpos s = 872 \<and> content s = content stream"
        if l3: "872 \<le> length (content stream)" and all: "\<forall>k<8. 0 \<le> hdr_int (content stream) k"
      proof -
        note s3 = hdr3_fwd[OF nf l3, of junk]
        have v: "\<And>k. k < 8 \<Longrightarrow> sint (int32_at (take 32 (drop 840 (content stream))) k) = hdr_int (content stream) k"
          using hdr_ints[OF l3] by simp
        have "\<not> list_ex (\<lambda>x. sint x < 0) (map (int32_at (take 32 (drop 840 (content stream)))) [0..<8])"
          using all v by (auto simp: list_ex_iff)
        then have "read_header uc junk stream =
           Inr (\<lparr>unit_system = u,
                  num_classes = hdr_int (content stream) 0, day = hdr_int (content stream) 1,
                  month = hdr_int (content stream) 2, year = hdr_int (content stream) 3,
                  nx = hdr_int (content stream) 4, ny = hdr_int (content stream) 5,
                  nz = hdr_int (content stream) 6, ncomp = hdr_int (content stream) 7\<rparr>,
                snd (stream_read (zeros 32) 32 (hdr_s3 junk stream)))"
          using a s1 s2 s3 Inr v by (simp add: read_header_unfold Let_def upt8)
        then show ?thesis using s3 all by (simp add: upt8)
      qed
      show ?thesis using Inr short neg pos by simp
    qed
  qed
qed

lemma all_less_8: "(\<forall>k<8. P k) \<longleftrightarrow> P 0 \<and> P 1 \<and> P 2 \<and> P 3 \<and> P 4 \<and> P 5 \<and> P 6 \<and> P (7::nat)"
proof -
  have "(\<forall>k<8. P k) \<longleftrightarrow> (\<forall>k\<in>set [0..<8]. P k)" by auto
  also have "\<dots> \<longleftrightarrow> P 0 \<and> P 1 \<and> P 2 \<and> P 3 \<and> P 4 \<and> P 5 \<and> P 6 \<and> P 7"
    unfolding upt8 by simp
  finally show ?thesis .
qed

lemma example_header_length: "length (example_header example_ints) = 872"
  by (simp add: example_header_def example_ints_def)

lemma example_header_tag: "take 12 (drop 4 (example_header xs)) = type_tag"
  by (simp add: example_header_def type_tag_def)

lemma example_header_unit: "take 6 (drop 40 (example_header xs)) = ''METBAR''"
  by (simp add: example_header_def type_tag_def)

lemma example_header_ints: "map (hdr_int (example_header example_ints)) [0..<8] = [1, 1, 1, 1980, 1, 1, 1, 3]"
  by (simp add: example_header_def example_ints_def upt8 hdr_int_def be_word_def)

lemma negative_header_length: "length (example_header negative_ints) = 872"
  by (simp add: example_header_def negative_ints_def)

lemma negative_header_int: "hdr_int (example_header negative_ints) 4 = -1"
  by (simp add: example_header_def negative_ints_def hdr_int_def be_word_def)

lemma short_header_length: "length (example_header []) = 840"
  by (simp add: example_header_def)

theorem read_header_outcomes_witness:
  "read_header example_unit_ctor (\<lambda>i. CHR ''?'') (open_stream FileBuf ''    PLOT  BIM   '') = Inl BadHeader
   \<and> read_header example_unit_ctor (\<lambda>i. CHR ''?'') (open_stream StringBuf (example_header [])) = Inl UnexpectedEof
   \<and> read_header example_unit_ctor (\<lambda>i. CHR ''?'') (open_stream FileBuf (example_header negative_ints)) = Inl BadHeader
   \<and> (\<exists>s. read_header example_unit_ctor (\<lambda>i. CHR ''?'') (open_stream FileBuf (example_header example_ints))
         = Inr (\<lparr>unit_system = metric_bars, num_classes = 1, day = 1, month = 1, year = 1980,
                  nx = 1, ny = 1, nz = 1, ncomp = 3\<rparr>, s))"
proof (intro conjI)
  show "read_header example_unit_ctor (\<lambda>i. CHR ''?'') (open_stream FileBuf ''    PLOT  BIM   '') = Inl BadHeader"
    using read_header_outcomes[of "open_stream FileBuf ''    PLOT  BIM   ''" example_unit_ctor "\<lambda>i. CHR ''?''"]
    by (simp add: open_stream_def type_tag_def)
  show "read_header example_unit_ctor (\<lambda>i. CHR ''?'') (open_stream StringBuf (example_header [])) = Inl UnexpectedEof"
    using read_header_outcomes[of "open_stream StringBuf (example_header [])" example_unit_ctor "\<lambda>i. CHR ''?''"]
    by (simp add: open_stream_def example_header_tag example_header_unit short_header_length example_unit_ctor_def)
  show "read_header example_unit_ctor (\<lambda>i. CHR ''?'') (open_stream FileBuf (example_header negative_ints)) = Inl BadHeader"
    using read_header_outcomes[of "open_stream FileBuf (example_header negative_ints)" example_unit_ctor "\<lambda>i. CHR ''?''"]
      exI[of "\<lambda>k. k < 8 \<and> hdr_int (example_header negative_ints) k < 0" 4]
    by (simp add: open_stream_def example_header_tag example_header_unit negative_header_length negative_header_int example_unit_ctor_def)
  show "\<exists>s. read_header example_unit_ctor (\<lambda>i. CHR ''?'') (open_stream FileBuf (example_header example_ints))
         = Inr (\<lparr>unit_system = metric_bars, num_classes = 1, day = 1, month = 1, year = 1980,
                  nx = 1, ny = 1, nz = 1, ncomp = 3\<rparr>, s)"
    using read_header_outcomes[of "open_stream FileBuf (example_header example_ints)" example_unit_ctor "\<lambda>i. CHR ''?''"]
      example_header_ints
    apply (simp add: open_stream_def example_header_length example_header_tag example_header_unit example_unit_ctor_def all_less_8 upt8)
    apply (elim exE conjE)
    subgoal for h s
      by (cases h) auto
    done
qed

section \<open>The record loop ends\<close>

lemma gpos_read_mono: "gpos s \<le> gpos (snd (stream_read b n s))"
  by (simp add: gpos_read)

lemma gpos_seek_cur_mono: "gpos s \<le> gpos (seekg_cur k s)"
  by (simp add: gpos_seek_cur)

lemma content_read_vars [simp]:
  "content (snd (read_vars s d ts t mp cn inst vs)) = content s"
  by (simp add: read_vars_def Let_def case_prod_beta)

lemma kind_read_vars [simp]:
  "buf_kind (snd (read_vars s d ts t mp cn inst vs)) = buf_kind s"
  by (simp add: read_vars_def Let_def case_prod_beta)

lemma gpos_read_vars_mono: "gpos s \<le> gpos (snd (read_vars s d ts t mp cn inst vs))"
  by (simp add: read_vars_def Let_def case_prod_beta gpos_read)

lemma read_items_stream:
  "content (fst (snd (read_items n junk v s d ts t mp cn))) = content s
   \<and> buf_kind (fst (snd (read_items n junk v s d ts t mp cn))) = buf_kind s
   \<and> gpos s \<le> gpos (fst (snd (read_items n junk v s d ts t mp cn)))"
proof (induction n arbitrary: v s d)
  case 0
  then show ?case by simp
next
  case (Suc n)
  define s1 where "s1 = seekg_cur 8 s"
  define r where "r = stream_read (uninit junk 8) 8 s1"
  define s3 where "s3 = seekg_cur 64 (snd r)"
  define m where "m = map_index v cn"
  define rv where "rv = read_vars s3 d ts t mp cn (fst r) (snd m)"
  have step: "read_items (Suc n) junk v s d ts t mp cn = read_items n junk (fst m) (snd rv) (fst rv) ts t mp cn"
    by (simp add: Let_def case_prod_beta s1_def r_def s3_def m_def rv_def)
  have "content (snd rv) = content s" "buf_kind (snd rv) = buf_kind s"
    by (simp_all add: rv_def s3_def r_def s1_def)
  moreover have "gpos s \<le> gpos (snd rv)"
  proof -
    have "gpos s \<le> gpos s1" unfolding s1_def by (rule gpos_seek_cur_mono)
    also have "\<dots> \<le> gpos (snd r)" unfolding r_def by (rule gpos_read_mono)
    also have "\<dots> \<le> gpos s3" unfolding s3_def by (rule gpos_seek_cur_mono)
    also have "\<dots> \<le> gpos (snd rv)" unfolding rv_def by (rule gpos_read_vars_mono)
    finally show ?thesis .
  qed
  ultimately show ?case
    using Suc.IH[of "fst m" "snd rv" "fst rv"] unfolding step by auto
qed

lemma read_block_More:
  assumes "read_block junk v s d = Inr (More v' s' d')"
  shows "content s' = content s \<and> buf_kind s' = buf_kind s
    \<and> gpos s + 20 \<le> gpos s' \<and> gpos s + 20 \<le> length (content s)"
proof -
  define r where "r = read_str junk 8 s"
  define r2 where "r2 = stream_read (zeros 20) 20 (seekg_cur 8 (snd r))"
  define buf where "buf = map (int32_at (fst r2)) [0..<5]"
  from assms have g: "good (snd r2)"
    by (auto simp: read_block_def Let_def case_prod_beta r_def r2_def split: if_splits)
  then have "\<not> failbit (snd r2)" by (simp add: good_def)
  from read_goodD[OF this[unfolded r2_def]]
  have p2: "gpos (snd r2) = gpos (seekg_cur 8 (snd r)) + 20"
    and l2: "20 \<le> length (content s) - gpos (seekg_cur 8 (snd r))"
    by (simp_all add: r2_def r_def read_str_def)
  have "gpos s \<le> gpos (snd r)" unfolding r_def read_str_def by (rule gpos_read_mono)
  also have "\<dots> \<le> gpos (seekg_cur 8 (snd r))" by (rule gpos_seek_cur_mono)
  finally have p1: "gpos s \<le> gpos (seekg_cur 8 (snd r))" .
  from assms obtain ts ni mp where
    s': "s' = seekg_cur 8 (fst (snd (read_items (nat ni) junk v (snd r2) d ts (interpret_float (buf ! 1)) mp (fst r))))"
    by (auto simp: read_block_def Let_def case_prod_beta r_def r2_def buf_def split: if_splits option.splits)
  have c: "content (snd r2) = content s" "buf_kind (snd r2) = buf_kind s"
    by (simp_all add: r2_def r_def read_str_def)
  note ri = read_items_stream[of "nat ni" junk v "snd r2" d ts "interpret_float (buf ! 1)" mp "fst r"]
  have "gpos (snd r2) \<le> gpos s'"
    unfolding s' using ri gpos_seek_cur_mono le_trans by blast
  moreover have "content s' = content s" "buf_kind s' = buf_kind s"
    unfolding s' using ri c by simp_all
  ultimately show ?thesis using p1 p2 l2 by simp
qed

termination load_loop
proof (relation "measure (\<lambda>(junk, v, s, d). length (content s) - gpos s)")
  show "wf (measure (\<lambda>(junk, v, s, d). length (content s) - gpos s))" by simp
next
  fix junk v s d x2 x21 x22 x23
  assume "read_block junk v s d = Inr x2" "x2 = More x21 x22 x23"
  then have "read_block junk v s d = Inr (More x21 x22 x23)" by simp
  from read_block_More[OF this]
  show "((junk, x21, x22, x23), (junk, v, s, d)) \<in> measure (\<lambda>(junk, v, s, d). length (content s) - gpos s)"
    by (simp, arith)
qed

section \<open>The summary converter\<close>

lemma std_sort_mset: "std_sort_spec cmp srt \<Longrightarrow> mset (srt xs) = mset xs"
  by (simp add: std_sort_spec_def)


lemma std_sort_filter_mset:
  "std_sort_spec cmp srt \<Longrightarrow> mset (filter P (srt xs)) = mset (filter P xs)"
  by (simp add: std_sort_mset)


lemma std_sort_sort_key: "std_sort_spec cmp_timestep (sort_key timestep)"
  unfolding std_sort_spec_def
proof (intro allI conjI)
  fix xs :: "NexusData list"
  show "mset (sort_key timestep xs) = mset xs" by simp
  have "sorted (map timestep (sort_key timestep xs))" by simp
  then show "sorted_wrt (\<lambda>a b. \<not> cmp_timestep b a) (sort_key timestep xs)"
    by (simp add: sorted_map cmp_timestep_def not_less)
qed




lemma field_vars_char:
  "field_vars vars u field nodes e cerr =
     (nodes @ series_nodes (length (smspec_vars e)) (converted_codes vars) field,
      e\<lparr>smspec_vars := smspec_vars e @ map (\<lambda>v. (the (kw_nex2ecl v), u v)) (converted_codes vars)\<rparr>,
      cerr @ map warning (skipped_codes vars))"
proof (induction vars arbitrary: nodes e cerr)
  case Nil
  then show ?case by (simp add: converted_codes_def skipped_codes_def)
next
  case (Cons var vars)
  show ?case
  proof (cases "kw_nex2ecl var")
    case None
    then show ?thesis
      by (simp add: Cons.IH converted_codes_def skipped_codes_def)
  next
    case (Some kw)
    then show ?thesis
      by (simp add: Cons.IH converted_codes_def skipped_codes_def ecl_sum_add_var_def Let_def
          node_list_def)
  qed
qed

lemma add_tsteps_char:
  "add_tsteps fmul i n tms tsl e =
     (if n = 0 \<or> i + n \<le> length tms
      then Inr (tsl @ [length (tsteps e)..<length (tsteps e) + n],
                e\<lparr>tsteps := tsteps e @
                    map (\<lambda>k. \<lparr>report_step = k + 1, sim_seconds = fmul (tms ! k) seconds_per_day,
                              node_values = Map.empty\<rparr>) [i..<i + n]\<rparr>)
      else Inl Undefined)"
proof (induction n arbitrary: i tsl e)
  case 0
  then show ?case by simp
next
  case (Suc n)
  show ?case
  proof (cases "length tms \<le> i")
    case True
    then show ?thesis by simp
  next
    case False
    then have i: "i < length tms" by simp
    show ?thesis
      using i by (simp add: Suc.IH ecl_sum_add_tstep_def Let_def upt_conv_Cons del: upt_Suc)
  qed
qed

lemma final_value_Nil [simp]: "final_value [] k n acc = acc"
  by (simp add: final_value_def)

lemma final_value_Cons [simp]:
  "final_value (nd # nodes) k n acc =
     final_value nodes k n (if timestep_index nd = k \<and> node nd = n then Some (val nd) else acc)"
  by (simp add: final_value_def)

lemma final_value_append [simp]:
  "final_value (xs @ ys) k n acc = final_value ys k n (final_value xs k n acc)"
  by (simp add: final_value_def)

lemma set_nodes_char:
  assumes "length (tsteps e) = T"
  shows "set_nodes nodes [0..<T] e =
     (if \<forall>nd\<in>set nodes. timestep_index nd < T
      then Inr (e\<lparr>tsteps := map (\<lambda>k. (tsteps e ! k)\<lparr>node_values :=
                     (\<lambda>n. final_value nodes k n (node_values (tsteps e ! k) n))\<rparr>) [0..<T]\<rparr>)
      else Inl Undefined)"
  using assms
proof (induction nodes arbitrary: e)
  case Nil
  have "map (\<lambda>k. (tsteps e ! k)\<lparr>node_values := \<lambda>n. node_values (tsteps e ! k) n\<rparr>) [0..<T] = tsteps e"
    using Nil by (intro nth_equalityI) simp_all
  then show ?case by simp
next
  case (Cons nd nodes)
  show ?case
  proof (cases "timestep_index nd < T")
    case False
    then show ?thesis by auto
  next
    case True
    define e1 where "e1 = ecl_sum_tstep_set_from_node e (timestep_index nd) (node nd) (val nd)"
    have l1: "length (tsteps e1) = T"
      using Cons.prems by (simp add: e1_def ecl_sum_tstep_set_from_node_def)
    have step: "set_nodes (nd # nodes) [0..<T] e = set_nodes nodes [0..<T] e1"
      using True by (simp add: e1_def)
    have nv: "node_values (tsteps e1 ! k) n =
        (if timestep_index nd = k \<and> node nd = n then Some (val nd) else node_values (tsteps e ! k) n)"
      if "k < T" for k n
      using that Cons.prems True
      by (simp add: e1_def ecl_sum_tstep_set_from_node_def nth_list_update)
    have rest: "(tsteps e1 ! k)\<lparr>node_values := f\<rparr> = (tsteps e ! k)\<lparr>node_values := f\<rparr>"
      if "k < T" for k f
      using that Cons.prems True
      by (simp add: e1_def ecl_sum_tstep_set_from_node_def nth_list_update)
    have meq: "map (\<lambda>k. (tsteps e1 ! k)\<lparr>node_values :=
                     (\<lambda>n. final_value nodes k n (node_values (tsteps e1 ! k) n))\<rparr>) [0..<T]
        = map (\<lambda>k. (tsteps e ! k)\<lparr>node_values :=
                     (\<lambda>n. final_value (nd # nodes) k n (node_values (tsteps e ! k) n))\<rparr>) [0..<T]"
      by (rule map_cong) (simp_all add: nv rest)
    have upd: "e1\<lparr>tsteps := x\<rparr> = e\<lparr>tsteps := x\<rparr>" for x
      by (simp add: e1_def ecl_sum_tstep_set_from_node_def)
    have "set_nodes (nd # nodes) [0..<T] e = set_nodes nodes [0..<T] e1" by (rule step)
    also have "\<dots> = (if \<forall>nd\<in>set nodes. timestep_index nd < T
      then Inr (e1\<lparr>tsteps := map (\<lambda>k. (tsteps e1 ! k)\<lparr>node_values :=
                     (\<lambda>n. final_value nodes k n (node_values (tsteps e1 ! k) n))\<rparr>) [0..<T]\<rparr>)
      else Inl Undefined)"
      by (rule Cons.IH[OF l1])
    also have "\<dots> = (if \<forall>nd\<in>set (nd # nodes). timestep_index nd < T
      then Inr (e\<lparr>tsteps := map (\<lambda>k. (tsteps e ! k)\<lparr>node_values :=
                     (\<lambda>n. final_value (nd # nodes) k n (node_values (tsteps e ! k) n))\<rparr>) [0..<T]\<rparr>)
      else Inl Undefined)"
      unfolding meq upd using True by simp
    finally show ?thesis .
  qed
qed

lemma node_list_snoc:
  "node_list m (vals @ [x]) =
     node_list m vals @ [\<lparr>node = m, val = value' x, timestep_index = length vals\<rparr>]"
  by (simp add: node_list_def nth_append)

lemma final_value_node_list:
  "final_value (node_list m vals) k n acc =
     (if n = m \<and> k < length vals then Some (value' (vals ! k)) else acc)"
proof (induction vals rule: rev_induct)
  case Nil
  then show ?case by (simp add: node_list_def)
next
  case (snoc x xs)
  then show ?case
    by (auto simp: node_list_snoc nth_append less_Suc_eq)
qed

lemma final_value_series:
  "final_value (series_nodes b vs field) k n acc =
     (if b \<le> n \<and> n < b + length vs \<and> k < length (filter (is_varname (vs ! (n - b))) field)
      then Some (value' (filter (is_varname (vs ! (n - b))) field ! k)) else acc)"
proof (induction vs arbitrary: b acc n)
  case Nil
  then show ?case by auto
next
  case (Cons v vs)
  show ?case
  proof (cases "n = b")
    case True
    then show ?thesis by (simp add: Cons.IH final_value_node_list)
  next
    case False
    have "(v # vs) ! (n - b) = vs ! (n - Suc b)" if "b < n"
      using that by (simp add: nth_Cons')
    then show ?thesis
      using False by (auto simp: Cons.IH final_value_node_list)
  qed
qed

lemma series_nodes_bound:
  "(\<forall>nd\<in>set (series_nodes b vs field). timestep_index nd < T)
     \<longleftrightarrow> (\<forall>v\<in>set vs. length (filter (is_varname v) field) \<le> T)"
proof (induction vs arbitrary: b)
  case Nil
  then show ?case by simp
next
  case (Cons v vs)
  have "(\<forall>nd\<in>set (node_list b xs). timestep_index nd < T) \<longleftrightarrow> length xs \<le> T" for xs
    by (auto simp: node_list_def)
  then show ?case by (simp add: Cons.IH ball_Un)
qed

lemma ecl_summary_char:
  "ecl_summary srt u fmul c plt =
     (if in_bounds srt plt
      then Inr (summary_of srt u fmul c plt, map warning (skipped_codes (varnames plt ''FIELD'')))
      else Inl Undefined)"
proof -
  define h where "h = header plt"
  define e0 where "e0 = ecl_sum_alloc_writer c True True '':'' (day h, month h, year h) True (nx h) (ny h) (nz h)"
  define codes where "codes = converted_codes (varnames plt ''FIELD'')"
  define field where "field = field_sorted srt plt"
  define ts where "ts = unique plt get_timestep id"
  define tms where "tms = unique plt get_time float_key"
  define e1 where "e1 = e0\<lparr>smspec_vars := map (\<lambda>v. (the (kw_nex2ecl v), u (unit_system h) v)) codes\<rparr>"
  define nodes where "nodes = series_nodes 0 codes field"
  define cerr where "cerr = map warning (skipped_codes (varnames plt ''FIELD''))"
  have fs: "field_smspec srt u [] e0 plt = (nodes, e1, cerr)"
    by (simp add: field_smspec_def Let_def field_vars_char e0_def ecl_sum_alloc_writer_def
        nodes_def e1_def cerr_def codes_def field_def h_def)
  define e2 where "e2 = e1\<lparr>tsteps := map (\<lambda>k. \<lparr>report_step = k + 1,
      sim_seconds = fmul (tms ! k) seconds_per_day, node_values = Map.empty\<rparr>) [0..<length ts]\<rparr>"
  have at: "add_tsteps fmul 0 (length ts) tms [] e1 =
      (if length ts \<le> length tms then Inr ([0..<length ts], e2) else Inl Undefined)"
    by (auto simp: add_tsteps_char e1_def e0_def ecl_sum_alloc_writer_def e2_def)
  have l2: "length (tsteps e2) = length ts" by (simp add: e2_def)
  have sn: "set_nodes nodes [0..<length ts] e2 =
      (if \<forall>v\<in>set codes. length (filter (is_varname v) field) \<le> length ts
       then Inr (summary_of srt u fmul c plt) else Inl Undefined)"
  proof -
    have "map (\<lambda>k. (tsteps e2 ! k)\<lparr>node_values :=
           (\<lambda>n. final_value nodes k n (node_values (tsteps e2 ! k) n))\<rparr>) [0..<length ts]
       = map (\<lambda>k. \<lparr>report_step = k + 1, sim_seconds = fmul (tms ! k) seconds_per_day,
                    node_values = series_value field codes k\<rparr>) [0..<length ts]"
      by (rule map_cong)
        (auto simp: e2_def nodes_def final_value_series series_value_def fun_eq_iff)
    moreover have "e2\<lparr>tsteps := x\<rparr> =
        \<lparr>ecl_case = c, fmt_output = True, unified = True, key_join_string = '':'',
         sim_start = (day h, month h, year h), time_in_days = True, dims = (nx h, ny h, nz h),
         smspec_vars = map (\<lambda>v. (the (kw_nex2ecl v), u (unit_system h) v)) codes,
         tsteps = x\<rparr>" for x
      by (simp add: e2_def e1_def e0_def ecl_sum_alloc_writer_def)
    ultimately show ?thesis
      unfolding set_nodes_char[OF l2] nodes_def series_nodes_bound
      by (simp add: summary_of_def h_def codes_def field_def ts_def tms_def)
  qed
  have ib: "in_bounds srt plt \<longleftrightarrow> length ts \<le> length tms
      \<and> (\<forall>v\<in>set codes. length (filter (is_varname v) field) \<le> length ts)"
    by (simp add: in_bounds_def list_all_iff ts_def tms_def codes_def field_def)
  have "ecl_summary srt u fmul c plt =
      (case add_tsteps fmul 0 (length ts) tms [] e1 of
         Inl err \<Rightarrow> Inl err
       | Inr (timesteps, e) \<Rightarrow>
          (case set_nodes nodes timesteps e of Inl err \<Rightarrow> Inl err | Inr e \<Rightarrow> Inr (e, cerr)))"
    using fs by (simp add: ecl_summary_def Let_def h_def e0_def ts_def tms_def)
  then show ?thesis
    unfolding at ib by (simp add: sn cerr_def)
qed

lemma map_dedup_key: "map key (dedup_key key xs) = remdups_adj (map key xs)"
  by (induction key xs rule: dedup_key.induct) simp_all

lemma sorted_distinct_remdups_adj:
  fixes xs :: "int list"
  shows "sorted xs \<Longrightarrow> distinct (remdups_adj xs)"
proof (induction xs rule: remdups_adj.induct)
  case (3 x y xs)
  show ?case
  proof (cases "x = y")
    case True
    then show ?thesis using 3 by simp
  next
    case False
    then have "x < y" using "3.prems" by simp
    then have "x \<notin> set (y # xs)" using "3.prems" by auto
    then show ?thesis using False 3 by simp
  qed
qed simp_all

lemma length_unique: "length (unique plt f key) = card (key ` f ` set (data plt))"
proof -
  define ys where "ys = sort_key key (map f (data plt))"
  have s: "sorted (map key ys)" by (simp add: ys_def)
  have "length (dedup_key key ys) = length (map key (dedup_key key ys))" by simp
  also have "\<dots> = length (remdups_adj (map key ys))" by (simp only: map_dedup_key)
  also have "\<dots> = card (set (remdups_adj (map key ys)))"
    using distinct_card[OF sorted_distinct_remdups_adj[OF s]] by simp
  also have "\<dots> = card (key ` f ` set (data plt))"
    by (simp add: ys_def)
  finally show ?thesis by (simp add: unique_def ys_def)
qed

lemma sorted_unique: "sorted (map key (unique plt f key))"
proof -
  have "sorted (remdups_adj (map key (sort_key key (map f (data plt)))))"
    by (rule sorted_remdups_adj) simp
  then show ?thesis by (simp add: unique_def map_dedup_key)
qed

lemma distinct_unique: "distinct (map key (unique plt f key))"
  unfolding unique_def map_dedup_key by (rule sorted_distinct_remdups_adj) simp


lemma trim_examples [simp]:
  "trim ''FIELD   '' = ''FIELD''" "trim ''NETWORK '' = ''NETWORK''"
  "trim ''QOP '' = ''QOP''" "trim ''WCUT'' = ''WCUT''"
  by (simp_all add: trim_def)

lemma filter_sorted_singleton:
  assumes "std_sort_spec cmp srt" "filter P xs = [x]"
  shows "filter P (srt xs) = [x]"
proof -
  have "mset (filter P (srt xs)) = {#x#}"
    using std_sort_filter_mset[OF assms(1), of P xs] assms(2) by simp
  then show ?thesis by (metis mset_single_iff_right mset.simps(2) mset_zero_iff_right  )
qed

lemma example_varnames: "varnames example_plot ''FIELD'' = [''QOP'', ''WCUT'']"
  by (simp add: varnames_def example_plot_def example_field_def is_classname_def)

lemma example_filtered:
  "field_filtered example_plot = [example_field ''QOP '' 0 0x41480000, example_field ''WCUT'' 0 0x3E99999A]"
  by (simp add: field_filtered_def example_plot_def example_field_def is_classname_def is_instancename_def)

lemma example_timesteps: "unique example_plot get_timestep id = [1]"
  by (simp add: unique_def example_plot_def example_field_def get_timestep_def)

lemma float_key_0 [simp]: "float_key 0 = 0"
  by (simp add: float_key_def float_sign_def)

lemma example_times: "unique example_plot get_time float_key = [0]"
  by (simp add: unique_def example_plot_def example_field_def get_time_def)

lemma example_codes: "converted_codes [''QOP'', ''WCUT''] = [''QOP'', ''WCUT'']"
  "skipped_codes [''QOP'', ''WCUT''] = []"
  by (simp_all add: converted_codes_def skipped_codes_def kw_nex2ecl_def)

lemma example_sorted:
  assumes "std_sort_spec cmp_timestep srt"
  shows "filter (is_varname ''QOP'') (field_sorted srt example_plot) = [example_field ''QOP '' 0 0x41480000]"
    and "filter (is_varname ''WCUT'') (field_sorted srt example_plot) = [example_field ''WCUT'' 0 0x3E99999A]"
  unfolding field_sorted_def
  by (rule filter_sorted_singleton[OF assms], simp add: example_filtered example_field_def is_varname_def)+

lemma float_12_5: "float_val 0x41480000 = 12.5"
  by (simp add: float_val_def float_sign_def float_exponent_def float_fraction_def)

lemma float_0_3: "\<bar>float_val 0x3E99999A - 0.3\<bar> < 1 / 2 ^ 26"
  by (simp add: float_val_def float_sign_def float_exponent_def float_fraction_def)

lemma example_unit: "unit_system (header example_plot) = metric_bars"
  by (simp add: example_plot_def example_hdr_def)

lemma example_in_bounds:
  assumes "std_sort_spec cmp_timestep srt"
  shows "in_bounds srt example_plot"
  by (simp add: in_bounds_def example_timesteps example_times example_varnames example_codes
      example_sorted[OF assms])

text \<open>
  C9: under the metric-bars unit system the code \<open>QOP\<close> goes to the keyword
  \<open>FOPR\<close> with the unit \<open>SM3/DAY\<close> and \<open>WCUT\<close> to \<open>FWCT\<close> with
  \<open>SM3/SM3\<close>; and the plot of one block at timestep 1, class \<open>FIELD\<close>, instance
  \<open>NETWORK\<close>, with the values 12.5 for \<open>QOP\<close> and 0.3 for \<open>WCUT\<close>, converts
  to one timestep record (index 0) that holds 12.5 for \<open>FOPR\<close> and the float nearest
  to 0.3 for \<open>FWCT\<close>, with no diagnostic, whatever order the sort gives to the two
  samples of the timestep.
\<close>

theorem metric_bars_example:
  assumes "std_sort_spec cmp_timestep srt"
  shows "kw_nex2ecl ''QOP'' = Some ''FOPR'' \<and> unit_str metric_bars ''QOP'' = ''SM3/DAY''
     \<and> kw_nex2ecl ''WCUT'' = Some ''FWCT'' \<and> unit_str metric_bars ''WCUT'' = ''SM3/SM3''
     \<and> (\<exists>e. ecl_summary srt unit_str fmul c example_plot = Inr (e, [])
           \<and> smspec_vars e = [(''FOPR'', ''SM3/DAY''), (''FWCT'', ''SM3/SM3'')]
           \<and> length (tsteps e) = 1
           \<and> node_values (tsteps e ! 0) 0 = Some 0x41480000
           \<and> node_values (tsteps e ! 0) 1 = Some 0x3E99999A)
     \<and> float_val 0x41480000 = 12.5 \<and> \<bar>float_val 0x3E99999A - 0.3\<bar> < 1 / 2 ^ 26"
proof -
  have kw: "kw_nex2ecl ''QOP'' = Some ''FOPR''" "kw_nex2ecl ''WCUT'' = Some ''FWCT''"
    by (simp_all add: kw_nex2ecl_def)
  have us: "unit_str metric_bars ''QOP'' = ''SM3/DAY''" "unit_str metric_bars ''WCUT'' = ''SM3/SM3''"
    by (simp_all add: unit_str_def measure_of_code_def)
  have "ecl_summary srt unit_str fmul c example_plot =
      Inr (summary_of srt unit_str fmul c example_plot, [])"
    by (simp add: ecl_summary_char example_in_bounds[OF assms] example_varnames example_codes)
  moreover have "smspec_vars (summary_of srt unit_str fmul c example_plot)
      = [(''FOPR'', ''SM3/DAY''), (''FWCT'', ''SM3/SM3'')]"
    by (simp add: summary_of_def example_varnames example_codes kw us example_unit)
  moreover have "length (tsteps (summary_of srt unit_str fmul c example_plot)) = 1"
    by (simp add: summary_of_def example_timesteps)
  moreover have "node_values (tsteps (summary_of srt unit_str fmul c example_plot) ! 0) 0 = Some 0x41480000"
    by (simp add: summary_of_def example_timesteps example_varnames example_codes series_value_def
        example_sorted[OF assms] example_field_def)
  moreover have "node_values (tsteps (summary_of srt unit_str fmul c example_plot) ! 0) 1 = Some 0x3E99999A"
    by (simp add: summary_of_def example_timesteps example_varnames example_codes series_value_def
        example_sorted[OF assms] example_field_def)
  ultimately show ?thesis using kw us float_12_5 float_0_3 by blast
qed

theorem metric_bars_example_witness:
  "\<forall>fmul c. \<exists>e. ecl_summary (sort_key timestep) unit_str fmul c example_plot = Inr (e, [])
           \<and> smspec_vars e = [(''FOPR'', ''SM3/DAY''), (''FWCT'', ''SM3/SM3'')]
           \<and> length (tsteps e) = 1
           \<and> node_values (tsteps e ! 0) 0 = Some 0x41480000
           \<and> node_values (tsteps e ! 0) 1 = Some 0x3E99999A"
  using metric_bars_example[OF std_sort_sort_key] by blast

section \<open>Claims about the converter\<close>






text \<open>
  C7, as amended: the converter has no check of the time axis. Whenever every index is
  in bounds the conversion returns a summary, also for a plot in which two filtered
  samples share a timestep index and differ in elapsed time: there is one timestep
  record per distinct timestep index of the plot, and the \<open>k\<close>-th record takes its
  time from the \<open>k\<close>-th of the distinct elapsed times of the plot in ascending order.
\<close>

theorem time_axis_not_checked:
  assumes "in_bounds srt plt"
  shows "\<exists>e cerr. ecl_summary srt u fmul c plt = Inr (e, cerr)
     \<and> length (tsteps e) = card (timestep ` set (data plt))
     \<and> map report_step (tsteps e) = map Suc [0..<length (tsteps e)]
     \<and> map sim_seconds (tsteps e)
         = map (\<lambda>k. fmul (unique plt get_time float_key ! k) seconds_per_day) [0..<length (tsteps e)]
     \<and> sorted (map float_key (unique plt get_time float_key))
     \<and> distinct (map float_key (unique plt get_time float_key))"
proof -
  have "ecl_summary srt u fmul c plt =
      Inr (summary_of srt u fmul c plt, map warning (skipped_codes (varnames plt ''FIELD'')))"
    using assms by (simp add: ecl_summary_char)
  moreover have "length (tsteps (summary_of srt u fmul c plt)) = card (timestep ` set (data plt))"
    by (simp add: summary_of_def length_unique get_timestep_def[abs_def])
  moreover have "map report_step (tsteps (summary_of srt u fmul c plt))
      = map Suc [0..<length (tsteps (summary_of srt u fmul c plt))]"
    by (simp add: summary_of_def comp_def)
  moreover have "map sim_seconds (tsteps (summary_of srt u fmul c plt))
      = map (\<lambda>k. fmul (unique plt get_time float_key ! k) seconds_per_day)
          [0..<length (tsteps (summary_of srt u fmul c plt))]"
    by (simp add: summary_of_def comp_def)
  ultimately show ?thesis
    using sorted_unique[of float_key plt get_time] distinct_unique[of float_key plt get_time]
    by blast
qed

lemma inconsistent_facts:
  "unique inconsistent_plot get_timestep id = [1]"
  "length (unique inconsistent_plot get_time float_key) = 2"
  "converted_codes (varnames inconsistent_plot ''FIELD'') = [''QOP'', ''WCUT'']"
  "field_filtered inconsistent_plot =
     [example_field ''QOP '' 0 0x41480000, example_field ''WCUT'' 0x3F800000 0x3E99999A]"
  by (simp_all add: inconsistent_plot_def example_field_def varnames_def is_classname_def
      converted_codes_def kw_nex2ecl_def field_filtered_def is_instancename_def
      unique_def get_timestep_def get_time_def float_key_def float_sign_def)

lemma inconsistent_in_bounds: "in_bounds (sort_key timestep) inconsistent_plot"
  by (simp add: in_bounds_def inconsistent_facts field_sorted_def example_field_def is_varname_def)

theorem time_axis_not_checked_witness:
  "timestep (example_field ''QOP '' 0 0x41480000) = timestep (example_field ''WCUT'' 0x3F800000 0x3E99999A)
   \<and> time (example_field ''QOP '' 0 0x41480000) \<noteq> time (example_field ''WCUT'' 0x3F800000 0x3E99999A)
   \<and> field_filtered inconsistent_plot =
        [example_field ''QOP '' 0 0x41480000, example_field ''WCUT'' 0x3F800000 0x3E99999A]
   \<and> (\<forall>fmul c. \<exists>e cerr.
         ecl_summary (sort_key timestep) unit_str fmul c inconsistent_plot = Inr (e, cerr)
         \<and> length (tsteps e) = 1)"
proof -
  have "card (timestep ` set (data inconsistent_plot)) = 1"
    by (simp add: inconsistent_plot_def example_field_def)
  then show ?thesis
    using time_axis_not_checked[OF inconsistent_in_bounds, of unit_str]
    by (simp add: inconsistent_facts example_field_def) metis
qed

theorem inconsistent_time_axis_converts:
  "timestep (example_field ''QOP '' 0 0x41480000) = timestep (example_field ''WCUT'' 0x3F800000 0x3E99999A)
   \<and> time (example_field ''QOP '' 0 0x41480000) \<noteq> time (example_field ''WCUT'' 0x3F800000 0x3E99999A)
   \<and> field_filtered inconsistent_plot =
        [example_field ''QOP '' 0 0x41480000, example_field ''WCUT'' 0x3F800000 0x3E99999A]
   \<and> (\<forall>fmul c. \<exists>r. ecl_summary (sort_key timestep) unit_str fmul c inconsistent_plot = Inr r)"
  by (simp add: inconsistent_facts example_field_def ecl_summary_char inconsistent_in_bounds)










section \<open>Record blocks\<close>

lemma fst_read_at:
  "stream_at s pre (x @ rest) \<Longrightarrow> length x = n \<Longrightarrow> fst (stream_read buf n s) = x @ drop n buf"
  by (simp add: stream_at_def stream_read_def good_def Let_def)

lemma at_snd_read:
  "stream_at s pre (x @ rest) \<Longrightarrow> length x = n \<Longrightarrow>
   stream_at (snd (stream_read buf n s)) (pre @ x) rest"
  by (simp add: stream_at_def stream_read_def good_def Let_def)

lemma at_seek_cur:
  "stream_at s pre (x @ rest) \<Longrightarrow> length x = k \<Longrightarrow> stream_at (seekg_cur k s) (pre @ x) rest"
  by (simp add: stream_at_def seekg_cur_def seekg_to_def Let_def)

lemma at_good: "stream_at s pre rest \<Longrightarrow> good s"
  by (simp add: stream_at_def good_def)

lemma take_concat_chunks:
  assumes "\<forall>v\<in>set vals. length v = 4" "k < length vals"
  shows "take 4 (drop (4 * k) (concat vals)) = vals ! k"
  using assms
proof (induction vals arbitrary: k)
  case Nil
  then show ?case by simp
next
  case (Cons v vs)
  show ?case
  proof (cases k)
    case 0
    then show ?thesis using Cons.prems by simp
  next
    case (Suc j)
    then show ?thesis using Cons.prems Cons.IH[of j] by simp
  qed
qed

lemma length_concat_chunks:
  "\<forall>v\<in>set vals. length v = 4 \<Longrightarrow> length (concat vals) = length vals * 4"
  by (induction vals) simp_all

lemma int32_at_concat:
  assumes "\<forall>v\<in>set vals. length v = 4" "k < length vals"
  shows "int32_at (concat vals @ ys) k = be_word (vals ! k)"
proof -
  have l: "4 * k + 4 \<le> length (concat vals)"
    using assms by (simp add: length_concat_chunks)
  then have "take 4 (drop (4 * k) (concat vals @ ys)) = take 4 (drop (4 * k) (concat vals))"
    by simp
  also have "\<dots> = vals ! k" by (rule take_concat_chunks[OF assms])
  finally have t: "take 4 (drop (4 * k) (concat vals @ ys)) = vals ! k" .
  have "4 * k + 4 \<le> length (concat vals @ ys)" using l by simp
  then have "int32_at (concat vals @ ys) k = be_word (take 4 (drop (4 * k) (concat vals @ ys)))"
    by (rule int32_at_be_word)
  then show ?thesis by (simp only: t)
qed

lemma item_bytes_tuple: "item_bytes (sep, inst, skip, vals) = sep @ inst @ skip @ concat vals"
  by (simp add: item_bytes_def)

lemma valid_item_tuple:
  "valid_item n (sep, inst, skip, vals) \<longleftrightarrow>
     length sep = 8 \<and> length inst = 8 \<and> length skip = 64 \<and> length vals = n
     \<and> (\<forall>v\<in>set vals. length v = 4)"
  by (simp add: valid_item_def list_all_iff)

lemma item_samples_tuple:
  "item_samples ts t mp cn codes (sep, inst, skip, vals) =
     map2 (\<lambda>code v. \<lparr>timestep = ts, time = t, max_perfs = mp, classname = cn,
                      instancename = inst, varname = code, value' = be_word v\<rparr>) codes vals"
  by (simp add: item_samples_def)

lemma read_vars_at:
  assumes at: "stream_at s pre (concat vals @ rest)"
      and len: "\<forall>v\<in>set vals. length v = 4" "length vals = length codes"
  shows "fst (read_vars s d ts t mp cn inst codes) =
           d @ map2 (\<lambda>code v. \<lparr>timestep = ts, time = t, max_perfs = mp, classname = cn,
                         instancename = inst, varname = code, value' = be_word v\<rparr>) codes vals"
    and "stream_at (snd (read_vars s d ts t mp cn inst codes)) (pre @ concat vals) rest"
proof -
  define n where "n = length codes"
  have lc: "length (concat vals) = n * 4"
    using len by (simp add: length_concat_chunks n_def)
  have raw: "fst (stream_read (zeros (n * 4)) (n * 4) s) = concat vals @ []"
    using fst_read_at[OF at lc, of "zeros (n * 4)"] by simp
  have vals: "int32_at (fst (stream_read (zeros (n * 4)) (n * 4) s)) k = be_word (vals ! k)"
    if "k < n" for k
    unfolding raw using int32_at_concat[OF len(1), of k "[]"] that len(2) by (simp add: n_def)
  have "map (\<lambda>k. \<lparr>timestep = ts, time = t, max_perfs = mp, classname = cn, instancename = inst,
                  varname = codes ! k,
                  value' = interpret_float (map (int32_at (fst (stream_read (zeros (n * 4)) (n * 4) s))) [0..<n] ! k)\<rparr>)
          [0..<n]
      = map2 (\<lambda>code v. \<lparr>timestep = ts, time = t, max_perfs = mp, classname = cn,
                         instancename = inst, varname = code, value' = be_word v\<rparr>) codes vals"
    using len(2) by (intro nth_equalityI) (simp_all add: n_def[symmetric] vals interpret_float_def)
  then show "fst (read_vars s d ts t mp cn inst codes) =
           d @ map2 (\<lambda>code v. \<lparr>timestep = ts, time = t, max_perfs = mp, classname = cn,
                         instancename = inst, varname = code, value' = be_word v\<rparr>) codes vals"
    by (simp add: read_vars_def Let_def case_prod_beta n_def[symmetric])
  show "stream_at (snd (read_vars s d ts t mp cn inst codes)) (pre @ concat vals) rest"
    using at_snd_read[OF at lc, of "zeros (n * 4)"]
    by (simp add: read_vars_def Let_def case_prod_beta n_def[symmetric])
qed

lemma map_index_again:
  "map_index (fst (map_index m k)) k = (fst (map_index m k), snd (map_index m k))"
  by (simp add: map_index_def split: option.splits)

lemma read_items_at:
  assumes "stream_at s pre (concat (map item_bytes items) @ rest)"
      and "list_all (valid_item (length (snd (map_index m cn)))) items"
  shows "fst (read_items (length items) junk m s d ts t mp cn)
           = (if items = [] then m else fst (map_index m cn))
         \<and> snd (snd (read_items (length items) junk m s d ts t mp cn))
           = d @ concat (map (item_samples ts t mp cn (snd (map_index m cn))) items)
         \<and> stream_at (fst (snd (read_items (length items) junk m s d ts t mp cn)))
              (pre @ concat (map item_bytes items)) rest"
  using assms
proof (induction items arbitrary: s pre m d)
  case Nil
  then show ?case by simp
next
  case (Cons it items)
  obtain sep inst skip vals where it: "it = (sep, inst, skip, vals)" by (cases it) auto
  define codes where "codes = snd (map_index m cn)"
  define m1 where "m1 = fst (map_index m cn)"
  have v: "length sep = 8" "length inst = 8" "length skip = 64" "length vals = length codes"
    "\<forall>v\<in>set vals. length v = 4"
    using Cons.prems(2) by (simp_all add: it valid_item_tuple codes_def)
  have at0: "stream_at s pre (sep @ inst @ skip @ concat vals @ concat (map item_bytes items) @ rest)"
    using Cons.prems(1) by (simp add: it item_bytes_tuple)
  define s1 where "s1 = seekg_cur 8 s"
  have at1: "stream_at s1 (pre @ sep) (inst @ skip @ concat vals @ concat (map item_bytes items) @ rest)"
    unfolding s1_def by (rule at_seek_cur[OF at0 v(1)])
  define r where "r = stream_read (uninit junk 8) 8 s1"
  have r1: "fst r = inst" unfolding r_def using fst_read_at[OF at1 v(2), of "uninit junk 8"] by simp
  have at2: "stream_at (snd r) ((pre @ sep) @ inst) (skip @ concat vals @ concat (map item_bytes items) @ rest)"
    unfolding r_def by (rule at_snd_read[OF at1 v(2)])
  define s3 where "s3 = seekg_cur 64 (snd r)"
  have at3: "stream_at s3 (((pre @ sep) @ inst) @ skip) (concat vals @ concat (map item_bytes items) @ rest)"
    unfolding s3_def by (rule at_seek_cur[OF at2 v(3)])
  define rv where "rv = read_vars s3 d ts t mp cn inst codes"
  note rvs = read_vars_at[OF at3 v(5) v(4), of d ts t mp cn inst]
  have rv1: "fst rv = d @ item_samples ts t mp cn codes it"
    unfolding rv_def by (simp add: rvs(1) item_samples_tuple it)
  have at4: "stream_at (snd rv) (pre @ item_bytes it) (concat (map item_bytes items) @ rest)"
    unfolding rv_def using rvs(2) by (simp add: item_bytes_tuple it)
  have step: "read_items (length (it # items)) junk m s d ts t mp cn
      = read_items (length items) junk m1 (snd rv) (fst rv) ts t mp cn"
    unfolding rv_def s3_def r_def s1_def m1_def codes_def
    using r1[unfolded r_def s1_def] by (simp add: Let_def case_prod_beta)
  have mi: "snd (map_index m1 cn) = codes" "fst (map_index m1 cn) = m1"
    using map_index_again[of m cn] by (simp_all add: m1_def codes_def)
  have val': "list_all (valid_item (length (snd (map_index m1 cn)))) items"
    using Cons.prems(2) by (simp add: mi codes_def)
  note ih = Cons.IH[OF at4 val', of "fst rv"]
  show ?case
    unfolding step using ih
    by (simp add: mi rv1 m1_def[symmetric] codes_def[symmetric])
qed

lemma float_fraction_bound: "float_fraction f < 2 ^ 23"
proof -
  have "unat (take_bit 23 f) < 2 ^ 23"
    by (metis unsigned_take_bit_eq take_bit_nat_less_exp)
  then show ?thesis by (simp add: float_fraction_def)
qed

lemma floor_div_pow2: "\<lfloor>real m / 2 ^ k\<rfloor> = int (m div 2 ^ k)"
proof -
  have "\<lfloor>real m / real (2 ^ k)\<rfloor> = int (m div 2 ^ k)"
    by (simp only: floor_divide_of_nat_eq)
  then show ?thesis by simp
qed

lemma truncate_signed:
  assumes "0 \<le> x" "\<lfloor>x\<rfloor> = n"
  shows "truncate_real ((if b then -1 else 1) * x) = (if b then -1 else 1) * n"
proof (cases "x = 0")
  case True
  then show ?thesis using assms by (auto simp: truncate_real_def)
next
  case False
  then have "0 < x" using assms(1) by simp
  then show ?thesis using assms(2) by (auto simp: truncate_real_def)
qed

lemma float_to_int32_truncates:
  assumes "float_to_int32 f = Some i"
  shows "i = truncate_real (float_val f)"
proof -
  define e where "e = float_exponent f"
  define m where "m = 2 ^ 23 + float_fraction f"
  define sg :: bool where "sg = float_sign f"
  have mb: "m < 2 ^ 24" using float_fraction_bound[of f] by (simp add: m_def)
  have rm: "real m = 8388608 + real (float_fraction f)" by (simp add: m_def)
  have nm: "m = 8388608 + float_fraction f" by (simp add: m_def)
  have main: "i = truncate_real (float_val f)"
    if v: "float_val f = (if sg then -1 else 1) * x" and x: "0 \<le> x" "\<lfloor>x\<rfloor> = n"
      and i: "i = (if sg then -1 else 1) * n" for x n
    unfolding v i by (rule truncate_signed[OF x, symmetric])
  consider "e = 0" | "0 < e" "e < 127" | "127 \<le> e" "e < 150" | "150 \<le> e" "e < 158" | "158 \<le> e"
    by linarith
  then show ?thesis
  proof cases
    case 1
    define x where "x = real (float_fraction f) / 2 ^ 149"
    have "(2::nat) ^ 23 \<le> 2 ^ 149" by (intro power_increasing) simp_all
    then have "float_fraction f < 2 ^ 149" using float_fraction_bound[of f] by linarith
    then have d: "float_fraction f div 2 ^ 149 = 0" by (rule div_less)
    have fl: "\<lfloor>x\<rfloor> = 0" unfolding x_def floor_div_pow2 by (simp only: d of_nat_0)
    have x0: "0 \<le> x" by (simp add: x_def)
    have i: "i = (if sg then -1 else 1) * 0"
      using assms 1 by (simp add: float_to_int32_def Let_def e_def[symmetric])
    have v: "float_val f = (if sg then -1 else 1) * x"
      using 1 by (simp add: float_val_def e_def[symmetric] x_def sg_def)
    show ?thesis by (rule main[OF v x0 fl i])
  next
    case 2
    define x where "x = real m / 2 ^ (150 - e)"
    have "(2::nat) ^ 24 \<le> 2 ^ (150 - e)" using 2 by (intro power_increasing) simp_all
    then have "m < 2 ^ (150 - e)" using mb by linarith
    then have d: "m div 2 ^ (150 - e) = 0" by (rule div_less)
    have fl: "\<lfloor>x\<rfloor> = 0" unfolding x_def floor_div_pow2 by (simp only: d of_nat_0)
    have x0: "0 \<le> x" by (simp add: x_def)
    have i: "i = (if sg then -1 else 1) * 0"
      using assms 2 by (simp add: float_to_int32_def Let_def e_def[symmetric])
    have v: "float_val f = (if sg then -1 else 1) * x"
      using 2 by (simp add: float_val_def e_def[symmetric] x_def sg_def rm)
    show ?thesis by (rule main[OF v x0 fl i])
  next
    case 3
    define x where "x = real m / 2 ^ (150 - e)"
    have i: "i = (if sg then -1 else 1) * int (m div 2 ^ (150 - e))"
      using assms 3 by (auto simp: float_to_int32_def Let_def e_def[symmetric] sg_def nm)
    have fl: "\<lfloor>x\<rfloor> = int (m div 2 ^ (150 - e))" unfolding x_def by (rule floor_div_pow2)
    have x0: "0 \<le> x" by (simp add: x_def)
    have v: "float_val f = (if sg then -1 else 1) * x"
      using 3 by (simp add: float_val_def e_def[symmetric] x_def sg_def rm)
    show ?thesis by (rule main[OF v x0 fl i])
  next
    case 4
    define x where "x = real (m * 2 ^ (e - 150))"
    have i: "i = (if sg then -1 else 1) * int (m * 2 ^ (e - 150))"
      using assms 4 by (auto simp: float_to_int32_def Let_def e_def[symmetric] sg_def nm)
    have v: "float_val f = (if sg then -1 else 1) * x"
      using 4 by (simp add: float_val_def e_def[symmetric] x_def sg_def rm)
    have fl: "\<lfloor>x\<rfloor> = int (m * 2 ^ (e - 150))" unfolding x_def by (rule floor_of_nat)
    have x0: "0 \<le> x" unfolding x_def by (rule of_nat_0_le_iff)
    show ?thesis by (rule main[OF v x0 fl i])
  next
    case 5
    then have c: "float_sign f" "e = 158" "float_fraction f = 0" and i: "i = - (2 ^ 31)"
      using assms by (auto simp: float_to_int32_def Let_def e_def[symmetric] split: if_splits)
    have "float_val f = - (2 ^ 31)"
      using c by (simp add: float_val_def e_def[symmetric])
    then show ?thesis using i by (simp add: truncate_real_def)
  qed
qed

lemma upt5: "[0..<5] = [0, 1, 2, 3, 4]"
  by (simp add: upt_rec)

lemma read_block_unfold:
  "read_block junk m s d =
     (if fst (read_str junk 8 s) = stop_tag then Inr (Done (snd (read_str junk 8 s)))
      else if \<not> good (snd (stream_read (zeros 20) 20 (seekg_cur 8 (snd (read_str junk 8 s)))))
        then Inl UnexpectedEof
      else
        (case (float_to_int32 (int32_at (fst (stream_read (zeros 20) 20 (seekg_cur 8 (snd (read_str junk 8 s))))) 0),
               float_to_int32 (int32_at (fst (stream_read (zeros 20) 20 (seekg_cur 8 (snd (read_str junk 8 s))))) 2),
               float_to_int32 (int32_at (fst (stream_read (zeros 20) 20 (seekg_cur 8 (snd (read_str junk 8 s))))) 4)) of
           (Some ts, Some ni, Some mp) \<Rightarrow>
             Inr (More
               (fst (read_items (nat ni) junk m
                       (snd (stream_read (zeros 20) 20 (seekg_cur 8 (snd (read_str junk 8 s))))) d ts
                       (int32_at (fst (stream_read (zeros 20) 20 (seekg_cur 8 (snd (read_str junk 8 s))))) 1)
                       mp (fst (read_str junk 8 s))))
               (seekg_cur 8 (fst (snd (read_items (nat ni) junk m
                       (snd (stream_read (zeros 20) 20 (seekg_cur 8 (snd (read_str junk 8 s))))) d ts
                       (int32_at (fst (stream_read (zeros 20) 20 (seekg_cur 8 (snd (read_str junk 8 s))))) 1)
                       mp (fst (read_str junk 8 s))))))
               (snd (snd (read_items (nat ni) junk m
                       (snd (stream_read (zeros 20) 20 (seekg_cur 8 (snd (read_str junk 8 s))))) d ts
                       (int32_at (fst (stream_read (zeros 20) 20 (seekg_cur 8 (snd (read_str junk 8 s))))) 1)
                       mp (fst (read_str junk 8 s))))))
         | _ \<Rightarrow> Inl Undefined))"
  by (simp add: read_block_def Let_def case_prod_beta interpret_float_def upt5
      split: option.splits)

lemma read_block_at:
  assumes at: "stream_at s pre (cn @ sep @ concat ws @ concat (map item_bytes items) @ sep' @ rest)"
      and len: "length cn = 8" "length sep = 8" "length ws = 5" "\<forall>w\<in>set ws. length w = 4"
               "length sep' = 8"
      and ns: "cn \<noteq> stop_tag"
      and conv: "float_to_int32 (be_word (ws ! 0)) = Some ts"
                "float_to_int32 (be_word (ws ! 2)) = Some ni"
                "float_to_int32 (be_word (ws ! 4)) = Some mp"
      and items: "nat ni = length items"
                 "list_all (valid_item (length (snd (map_index m cn)))) items"
  shows "\<exists>s'. read_block junk m s d =
           Inr (More (if items = [] then m else fst (map_index m cn)) s'
                  (d @ concat (map (item_samples ts (be_word (ws ! 1)) mp cn (snd (map_index m cn))) items)))
         \<and> stream_at s' (pre @ cn @ sep @ concat ws @ concat (map item_bytes items) @ sep') rest"
proof -
  define r where "r = read_str junk 8 s"
  have r1: "fst r = cn"
    unfolding r_def read_str_def using fst_read_at[OF at len(1), of "uninit junk 8"] by simp
  have at1: "stream_at (snd r) (pre @ cn) (sep @ concat ws @ concat (map item_bytes items) @ sep' @ rest)"
    unfolding r_def read_str_def by (rule at_snd_read[OF at len(1)])
  define s2 where "s2 = seekg_cur 8 (snd r)"
  have at2: "stream_at s2 ((pre @ cn) @ sep) (concat ws @ concat (map item_bytes items) @ sep' @ rest)"
    unfolding s2_def by (rule at_seek_cur[OF at1 len(2)])
  define r3 where "r3 = stream_read (zeros 20) 20 s2"
  have lw: "length (concat ws) = 20" using len(3,4) by (simp add: length_concat_chunks)
  have raw: "fst r3 = concat ws @ []"
    unfolding r3_def using fst_read_at[OF at2 lw, of "zeros 20"] by simp
  have at3: "stream_at (snd r3) (((pre @ cn) @ sep) @ concat ws) (concat (map item_bytes items) @ sep' @ rest)"
    unfolding r3_def by (rule at_snd_read[OF at2 lw])
  have g3: "good (snd r3)" by (rule at_good[OF at3])
  have w: "int32_at (fst r3) k = be_word (ws ! k)" if "k < 5" for k
    using that int32_at_concat[OF len(4), of k "[]"] unfolding raw by (simp add: len(3))
  define ri where "ri = read_items (nat ni) junk m (snd r3) d ts (be_word (ws ! 1)) mp cn"
  note ria = read_items_at[OF at3 items(2), of junk d ts "be_word (ws ! 1)" mp]
  have ri1: "fst ri = (if items = [] then m else fst (map_index m cn))"
    and ri2: "snd (snd ri) = d @ concat (map (item_samples ts (be_word (ws ! 1)) mp cn (snd (map_index m cn))) items)"
    and at4: "stream_at (fst (snd ri)) ((((pre @ cn) @ sep) @ concat ws) @ concat (map item_bytes items)) (sep' @ rest)"
    using ria by (simp_all add: ri_def items(1))
  define s5 where "s5 = seekg_cur 8 (fst (snd ri))"
  have at5: "stream_at s5 (((((pre @ cn) @ sep) @ concat ws) @ concat (map item_bytes items)) @ sep') rest"
    unfolding s5_def by (rule at_seek_cur[OF at4 len(5)])
  have "read_block junk m s d = Inr (More (fst ri) s5 (snd (snd ri)))"
    unfolding read_block_unfold r_def[symmetric] s2_def[symmetric] r3_def[symmetric]
    using ns g3 by (simp add: r1 w conv ri_def s5_def)
  then show ?thesis using at5 ri1 ri2 by simp
qed

text \<open>
  C1: a record block of a class of the catalog. With the stream good at the class-name
  token and the chars of the block there (token, separator, five words, the items, the
  trailing separator), the decoder appends, for each item in order, one sample per
  variable code of the class in catalog order: the timestep index, the elapsed time
  and the maximal perforation count of the block, the class name, the instance name
  of the item, and as value the big-endian word of the item's value array, its bits
  taken as a float. The timestep index and the item count are the floats of the first
  and third word with the fraction dropped; the fourth word is not looked at. The stream
  is left good after the trailing separator and the catalog is unchanged.
\<close>

theorem record_block_decoded:
  assumes "stream_at s pre (cn @ sep @ concat ws @ concat (map item_bytes items) @ sep' @ rest)"
      and "length cn = 8" "length sep = 8" "length ws = 5" "\<forall>w\<in>set ws. length w = 4"
          "length sep' = 8"
      and "cn \<noteq> stop_tag"
      and "float_to_int32 (be_word (ws ! 0)) = Some ts"
          "float_to_int32 (be_word (ws ! 2)) = Some ni"
          "float_to_int32 (be_word (ws ! 4)) = Some mp"
      and "m cn = Some codes"
      and "nat ni = length items" "list_all (valid_item (length codes)) items"
  shows "(\<exists>s'. read_block junk m s d =
            Inr (More m s'
                  (d @ concat (map (item_samples ts (be_word (ws ! 1)) mp cn codes) items)))
          \<and> stream_at s' (pre @ cn @ sep @ concat ws @ concat (map item_bytes items) @ sep') rest)
     \<and> list_all (\<lambda>it. map varname (item_samples ts (be_word (ws ! 1)) mp cn codes it) = codes
                    \<and> list_all (\<lambda>nd. timestep nd = ts \<and> time nd = be_word (ws ! 1)
                                    \<and> max_perfs nd = mp \<and> classname nd = cn
                                    \<and> instancename nd = fst (snd it))
                          (item_samples ts (be_word (ws ! 1)) mp cn codes it)
                    \<and> map value' (item_samples ts (be_word (ws ! 1)) mp cn codes it)
                        = map be_word (snd (snd (snd it)))) items
     \<and> ts = truncate_real (float_val (be_word (ws ! 0)))
     \<and> ni = truncate_real (float_val (be_word (ws ! 2)))
     \<and> mp = truncate_real (float_val (be_word (ws ! 4)))"
proof -
  have mi: "snd (map_index m cn) = codes" "fst (map_index m cn) = m"
    using assms(11) by (simp_all add: map_index_def)
  have items: "list_all (valid_item (length (snd (map_index m cn)))) items"
    using assms(13) by (simp add: mi)
  from read_block_at[OF assms(1-10,12) items, of junk d]
  have 1: "\<exists>s'. read_block junk m s d =
            Inr (More m s'
                  (d @ concat (map (item_samples ts (be_word (ws ! 1)) mp cn codes) items)))
          \<and> stream_at s' (pre @ cn @ sep @ concat ws @ concat (map item_bytes items) @ sep') rest"
    by (simp add: mi cong: if_cong)
  have 2: "list_all (\<lambda>it. map varname (item_samples ts (be_word (ws ! 1)) mp cn codes it) = codes
                    \<and> list_all (\<lambda>nd. timestep nd = ts \<and> time nd = be_word (ws ! 1)
                                    \<and> max_perfs nd = mp \<and> classname nd = cn
                                    \<and> instancename nd = fst (snd it))
                          (item_samples ts (be_word (ws ! 1)) mp cn codes it)
                    \<and> map value' (item_samples ts (be_word (ws ! 1)) mp cn codes it)
                        = map be_word (snd (snd (snd it)))) items"
    unfolding list_all_iff
  proof
    fix it assume "it \<in> set items"
    then have v: "valid_item (length codes) it" using assms(13) by (simp add: list_all_iff)
    obtain sp inst skip vals where it: "it = (sp, inst, skip, vals)" by (cases it) auto
    have l: "length vals = length codes" using v by (simp add: it valid_item_tuple)
    show "map varname (item_samples ts (be_word (ws ! 1)) mp cn codes it) = codes
                    \<and> (\<forall>nd\<in>set (item_samples ts (be_word (ws ! 1)) mp cn codes it).
                          timestep nd = ts \<and> time nd = be_word (ws ! 1)
                                    \<and> max_perfs nd = mp \<and> classname nd = cn
                                    \<and> instancename nd = fst (snd it))
                    \<and> map value' (item_samples ts (be_word (ws ! 1)) mp cn codes it)
                        = map be_word (snd (snd (snd it)))"
      using l by (auto simp: it item_samples_tuple intro: nth_equalityI dest: set_zip_leftD)
  qed
  show ?thesis
    using 1 2 float_to_int32_truncates[OF assms(8)] float_to_int32_truncates[OF assms(9)]
      float_to_int32_truncates[OF assms(10)] by blast
qed

text \<open>
  C3, as amended: a record block whose class-name token is neither the sentinel nor a
  class of the catalog is not an error. The lookup in the catalog enters the class
  with no variable codes, so no value is read for an item: with the chars of such a
  block in the stream (token, separator, five words, items of separator, instance
  name and 64 skipped chars, trailing separator) the decoder appends no sample and
  goes on with the next block, the stream good after the trailing separator.
\<close>

theorem unknown_class_block:
  assumes "stream_at s pre (cn @ sep @ concat ws @ concat (map item_bytes items) @ sep' @ rest)"
      and "length cn = 8" "length sep = 8" "length ws = 5" "\<forall>w\<in>set ws. length w = 4"
          "length sep' = 8"
      and "cn \<noteq> stop_tag"
      and "float_to_int32 (be_word (ws ! 0)) = Some ts"
          "float_to_int32 (be_word (ws ! 2)) = Some ni"
          "float_to_int32 (be_word (ws ! 4)) = Some mp"
      and "m cn = None"
      and "nat ni = length items" "list_all (valid_item 0) items"
  shows "\<exists>s'. read_block junk m s d = Inr (More (if items = [] then m else m(cn \<mapsto> [])) s' d)
          \<and> stream_at s' (pre @ cn @ sep @ concat ws @ concat (map item_bytes items) @ sep') rest"
proof -
  have mi: "snd (map_index m cn) = []" "fst (map_index m cn) = m(cn \<mapsto> [])"
    using assms(11) by (simp_all add: map_index_def)
  have items: "list_all (valid_item (length (snd (map_index m cn)))) items"
    using assms(13) by (simp add: mi)
  have e: "item_samples ts t mp cn [] it = []" for t it
    by (cases it) (simp add: item_samples_def)
  have c: "concat (map (item_samples ts t mp cn []) items) = []" for t
    by (simp add: e)
  show ?thesis
    using read_block_at[OF assms(1-10,12) items, of junk d] unfolding mi c
    by (simp cong: if_cong)
qed

declare load_loop.simps [simp del]

lemma stream_at_open: "stream_at (open_stream k cs) [] cs"
  by (simp add: stream_at_def open_stream_def)

lemma example_words_facts:
  "length example_words = 5" "\<forall>w\<in>set example_words. length w = 4"
  "float_to_int32 (be_word (example_words ! 0)) = Some 1"
  "float_to_int32 (be_word (example_words ! 2)) = Some 1"
  "float_to_int32 (be_word (example_words ! 4)) = Some 0"
  "be_word (example_words ! 1) = 0"
  "be_word (example_words ! Suc 0) = 0"
  by (simp_all add: example_words_def be_word_def float_to_int32_def float_exponent_def
      float_fraction_def float_sign_def Let_def)

lemma example_values:
  "be_word [CHR 0x41, CHR 0x48, CHR 0x00, CHR 0x00] = 0x41480000"
  "be_word [CHR 0x3E, CHR 0x99, CHR 0x99, CHR 0x9A] = 0x3E99999A"
  by (simp_all add: be_word_def)

lemma read_block_stop:
  assumes "stream_at s pre (stop_tag @ rest)"
  shows "read_block junk m s d = Inr (Done (snd (read_str junk 8 s)))"
proof -
  have "length stop_tag = 8" by (simp add: stop_tag_def)
  from fst_read_at[OF assms this, of "uninit junk 8"]
  have "fst (read_str junk 8 s) = stop_tag" by (simp add: read_str_def)
  then show ?thesis by (simp add: read_block_unfold)
qed

theorem record_block_decoded_witness:
  "\<exists>s'. read_block (\<lambda>i. CHR ''?'') example_catalog
          (open_stream StringBuf (example_block @ stop_tag)) []
        = Inr (More example_catalog s'
                [example_field ''QOP '' 0 0x41480000, example_field ''WCUT'' 0 0x3E99999A])"
proof -
  have at: "stream_at (open_stream StringBuf (example_block @ stop_tag)) []
      (''FIELD   '' @ zeros 8 @ concat example_words @ concat (map item_bytes [example_item])
         @ zeros 8 @ stop_tag)"
    using stream_at_open[of StringBuf "example_block @ stop_tag"] by (simp add: example_block_def)
  have c: "example_catalog ''FIELD   '' = Some [''QOP '', ''WCUT'']"
    by (simp add: example_catalog_def)
  have v: "list_all (valid_item (length [''QOP '', ''WCUT''])) [example_item]"
    by (simp add: example_item_def valid_item_tuple)
  have n: "nat 1 = length [example_item]" by simp
  have ns: "''FIELD   '' \<noteq> stop_tag" by (simp add: stop_tag_def)
  from record_block_decoded[where s="open_stream StringBuf (example_block @ stop_tag)" and pre="[]"
      and cn="''FIELD   ''" and sep="zeros 8" and ws=example_words and items="[example_item]"
      and sep'="zeros 8" and rest=stop_tag and ts=1 and ni=1 and mp=0 and m=example_catalog
      and codes="[''QOP '', ''WCUT'']" and junk="\<lambda>i. CHR ''?''" and d="[]",
      OF at _ _ example_words_facts(1,2) _ ns example_words_facts(3,4,5) c n v]
  have "\<exists>s'. read_block (\<lambda>i. CHR ''?'') example_catalog
          (open_stream StringBuf (example_block @ stop_tag)) []
        = Inr (More example_catalog s'
            ([] @ concat (map (item_samples 1 (be_word (example_words ! 1)) 0 ''FIELD   ''
                                 [''QOP '', ''WCUT'']) [example_item])))"
    by simp blast
  then show ?thesis
    by (simp add: example_words_facts(6,7) example_item_def item_samples_tuple example_values
        example_field_def)
qed

theorem unknown_class_block_witness:
  "\<exists>s'. read_block (\<lambda>i. CHR ''?'') example_catalog
          (open_stream StringBuf (unknown_block @ stop_tag)) []
        = Inr (More (example_catalog(''WELL    '' \<mapsto> [])) s' [])"
proof -
  have at: "stream_at (open_stream StringBuf (unknown_block @ stop_tag)) []
      (''WELL    '' @ zeros 8 @ concat example_words @ concat (map item_bytes [unknown_item])
         @ zeros 8 @ stop_tag)"
    using stream_at_open[of StringBuf "unknown_block @ stop_tag"] by (simp add: unknown_block_def)
  have c: "example_catalog ''WELL    '' = None"
    by (simp add: example_catalog_def)
  have v: "list_all (valid_item 0) [unknown_item]"
    by (simp add: unknown_item_def valid_item_tuple)
  have n: "nat 1 = length [unknown_item]" by simp
  have ns: "''WELL    '' \<noteq> stop_tag" by (simp add: stop_tag_def)
  from unknown_class_block[where s="open_stream StringBuf (unknown_block @ stop_tag)" and pre="[]"
      and cn="''WELL    ''" and sep="zeros 8" and ws=example_words and items="[unknown_item]"
      and sep'="zeros 8" and rest=stop_tag and ts=1 and ni=1 and mp=0 and m=example_catalog
      and junk="\<lambda>i. CHR ''?''" and d="[]",
      OF at _ _ example_words_facts(1,2) _ ns example_words_facts(3,4,5) c n v]
  show ?thesis by simp blast
qed

theorem unknown_class_not_an_error:
  "example_catalog ''WELL    '' = None \<and> ''WELL    '' \<noteq> stop_tag
   \<and> (\<exists>s'. load_loop (\<lambda>i. CHR ''?'') example_catalog
              (open_stream FileBuf (unknown_block @ stop_tag)) [] = Inr ([], s'))"
proof -
  have at: "stream_at (open_stream FileBuf (unknown_block @ stop_tag)) []
      (''WELL    '' @ zeros 8 @ concat example_words @ concat (map item_bytes [unknown_item])
         @ zeros 8 @ stop_tag @ [])"
    using stream_at_open[of FileBuf "unknown_block @ stop_tag"] by (simp add: unknown_block_def)
  have c: "example_catalog ''WELL    '' = None"
    by (simp add: example_catalog_def)
  have v: "list_all (valid_item (length (snd (map_index example_catalog ''WELL    '')))) [unknown_item]"
    by (simp add: unknown_item_def valid_item_tuple map_index_def c)
  have n: "nat 1 = length [unknown_item]" by simp
  have ns: "''WELL    '' \<noteq> stop_tag" by (simp add: stop_tag_def)
  from read_block_at[where s="open_stream FileBuf (unknown_block @ stop_tag)" and pre="[]"
      and cn="''WELL    ''" and sep="zeros 8" and ws=example_words and items="[unknown_item]"
      and sep'="zeros 8" and rest="stop_tag @ []" and ts=1 and ni=1 and mp=0 and m=example_catalog
      and junk="\<lambda>i. CHR ''?''" and d="[]",
      OF at _ _ example_words_facts(1,2) _ ns example_words_facts(3,4,5) n v]
  obtain s' where b1: "read_block (\<lambda>i. CHR ''?'') example_catalog
        (open_stream FileBuf (unknown_block @ stop_tag)) []
      = Inr (More (fst (map_index example_catalog ''WELL    '')) s' [])"
    and at': "stream_at s' (''WELL    '' @ zeros 8 @ concat example_words
        @ concat (map item_bytes [unknown_item]) @ zeros 8) (stop_tag @ [])"
    by (auto simp: map_index_def c item_samples_def unknown_item_def)
  note b2 = read_block_stop[OF at', of "\<lambda>i. CHR ''?''" "fst (map_index example_catalog ''WELL    '')" "[]"]
  have "load_loop (\<lambda>i. CHR ''?'') example_catalog (open_stream FileBuf (unknown_block @ stop_tag)) []
      = Inr ([], snd (read_str (\<lambda>i. CHR ''?'') 8 s'))"
    apply (subst load_loop.simps)
    apply (simp add: b1)
    apply (subst load_loop.simps)
    apply (simp add: b2)
    done
  then show ?thesis using c ns by blast
qed

end
